theory Spec2Isabelle
  imports Main
begin

section \<open>ThreadActorProxy (src/firefox/actorProxy/thread.ts)\<close>

text \<open>
  The proxy of one thread actor of the Firefox remote debugging protocol. The class is
  embedded as a record of its fields together with the traces of its collaborators
  (the connection, the event emitter it extends, the logger); every method takes the
  state and returns the new one. All code runs on one thread, one call or one inbound
  message at a time.
\<close>

subsection \<open>JavaScript values\<close>

text \<open>
  Inbound messages are decoded JSON; outbound messages are object literals whose fields
  may be \<open>undefined\<close>. Numbers are modelled by their integer values: the proxy only
  tests a number for being falsy (zero) and passes it on. Strings are lists of
  characters; the proxy only compares, concatenates and rewrites them character by
  character.
\<close>

datatype jsval =
    JUndefined
  | JNull
  | JBool bool
  | JNum int
  | JStr string
  | JArr "jsval list"
  | JObj "(string \<times> jsval) list"

type_synonym response = "(string \<times> jsval) list"

datatype error = TypeError

text \<open>\<open>response[k]\<close>: the value of an own property, \<open>undefined\<close> when absent.\<close>

definition field :: "response \<Rightarrow> string \<Rightarrow> jsval" where
  "field r k = (case map_of r k of None \<Rightarrow> JUndefined | Some v \<Rightarrow> v)"

text \<open>
  \<open>v.k\<close> for a value of any kind: reading a property of \<open>undefined\<close> or \<open>null\<close> throws
  a TypeError, a primitive has none of the properties read here but \<open>length\<close> on a
  string, an array has \<open>length\<close>. It is applied to the names \<open>type\<close>, \<open>frameFinished\<close>,
  \<open>return\<close>, \<open>url\<close>, \<open>actor\<close> and \<open>length\<close> only, none of which is an array index or
  a property of a built-in prototype other than \<open>length\<close>.
\<close>

fun js_get :: "jsval \<Rightarrow> string \<Rightarrow> error + jsval" where
  "js_get JUndefined k = Inl TypeError"
| "js_get JNull k = Inl TypeError"
| "js_get (JObj kvs) k = Inr (field kvs k)"
| "js_get (JArr xs) k = Inr (if k = ''length'' then JNum (int (length xs)) else JUndefined)"
| "js_get (JStr s) k = Inr (if k = ''length'' then JNum (int (length s)) else JUndefined)"
| "js_get (JBool b) k = Inr JUndefined"
| "js_get (JNum n) k = Inr JUndefined"

text \<open>Truthiness, as tested by \<open>if (v)\<close>: arrays and objects are truthy even when empty.\<close>

fun truthy :: "jsval \<Rightarrow> bool" where
  "truthy JUndefined = False"
| "truthy JNull = False"
| "truthy (JBool b) = b"
| "truthy (JNum n) = (n \<noteq> 0)"
| "truthy (JStr s) = (s \<noteq> [])"
| "truthy (JArr xs) = True"
| "truthy (JObj kvs) = True"

text \<open>
  Whether converting a value to a string, as a template string does with \<open>${v}\<close>,
  throws a TypeError. A primitive always converts. An object decoded from JSON has no
  callable property: if it has an own property \<open>toString\<close>, that one hides the
  inherited method, \<open>valueOf\<close> (own and not callable, or inherited and returning the
  object itself) yields no primitive either, and the conversion throws; without it the
  inherited \<open>toString\<close> answers. An array is joined: every element other than
  \<open>undefined\<close> and \<open>null\<close> is converted in turn.
\<close>

fun ToString_throws :: "jsval \<Rightarrow> bool" where
  "ToString_throws JUndefined = False"
| "ToString_throws JNull = False"
| "ToString_throws (JBool b) = False"
| "ToString_throws (JNum n) = False"
| "ToString_throws (JStr s) = False"
| "ToString_throws (JArr xs) =
     list_ex (\<lambda>x. x \<noteq> JUndefined \<and> x \<noteq> JNull \<and> ToString_throws x) xs"
| "ToString_throws (JObj kvs) = (map_of kvs ''toString'' \<noteq> None)"

text \<open>\<open>Object.keys(response)\<close>: the own property names, each once.\<close>

definition js_keys :: "response \<Rightarrow> string list" where
  "js_keys r = remdups (map fst r)"

subsection \<open>Promises\<close>

text \<open>
  A promise is a cell of a store; a handle is its address. \<open>new Promise\<close> allocates a
  pending cell, \<open>Promise.resolve(v)\<close> a resolved one. The pair \<open>{ resolve, reject }\<close> that
  the source keeps as a \<open>PendingRequest\<close> is represented by the handle of the promise it
  settles. Settling a promise that is already settled has no effect.
\<close>

datatype pstate = Pending | Resolved jsval | Rejected jsval

type_synonym handle = nat

definition settle :: "handle \<Rightarrow> pstate \<Rightarrow> pstate list \<Rightarrow> pstate list" where
  "settle h p ps = (if h < length ps \<and> ps ! h = Pending then ps[h := p] else ps)"

subsection \<open>Collaborators: log, connection, event emitter\<close>

text \<open>
  A log entry is a level and a message. The message is kept as the parts the source
  concatenates: literal text, a value interpolated into a template string (the
  conversion itself is left to \<open>Shown\<close>; whether it throws is decided before the entry
  is made), and a value passed through \<open>JSON.stringify\<close>, which does not throw on
  decoded JSON.
\<close>

datatype level = Debug | Warn

datatype logpart = Text string | Shown jsval | Stringified jsval

type_synonym logentry = "level \<times> logpart list"

text \<open>
  An actor proxy known to the connection: this thread's, or the proxy of a source,
  represented by the source descriptor it was constructed from (source.ts is not among
  the sources).
\<close>

datatype actor = ThreadActor string | SourceActor jsval

datatype event =
    PausedEvent jsval
  | ExitedEvent
  | WrongStateEvent
  | NewSourceEvent actor

text \<open>
  The enum \<open>ExceptionBreakpoints { All, Uncaught, None }\<close>, its members renamed where
  they would clash, and the step kinds \<open>'next' | 'step' | 'finish'\<close> of \<open>resume\<close>.
\<close>

datatype ExceptionBreakpoints = AllE | UncaughtE | NoneE

datatype resumeLimitType = Next | Step | Finish

record state =
  name :: string
  promises :: "pstate list"
  pendingAttachRequest :: "handle option"
  attachPromise :: "handle option"
  pendingResumeRequest :: "handle option"
  resumePromise :: "handle option"
  pendingInterruptRequest :: "handle option"
  interruptPromise :: "handle option"
  pendingDetachRequest :: "handle option"
  detachPromise :: "handle option"
  pendingSourcesRequests :: "handle list"
  pendingStackFramesRequests :: "handle list"
  pendingEvaluateRequests :: "handle list"
  pendingReleaseRequests :: "handle list"
  sent :: "jsval list"
  registry :: "jsval \<rightharpoonup> actor"
  emitted :: "event list"
  logged :: "logentry list"

definition log_debug :: "logpart list \<Rightarrow> state \<Rightarrow> state" where
  "log_debug m s = s\<lparr>logged := logged s @ [(Debug, m)]\<rparr>"

definition log_warn :: "logpart list \<Rightarrow> state \<Rightarrow> state" where
  "log_warn m s = s\<lparr>logged := logged s @ [(Warn, m)]\<rparr>"

text \<open>\<open>connection.sendRequest(msg)\<close>: the message is handed to the transport.\<close>

definition sendRequest :: "jsval \<Rightarrow> state \<Rightarrow> state" where
  "sendRequest msg s = s\<lparr>sent := sent s @ [msg]\<rparr>"

text \<open>
  \<open>this.emit(...)\<close>: the event is delivered to the listeners registered for it. The
  listeners are client code; the model records the events in the order they are emitted.
\<close>

definition emit :: "event \<Rightarrow> state \<Rightarrow> state" where
  "emit ev s = s\<lparr>emitted := emitted s @ [ev]\<rparr>"

definition newPromise :: "state \<Rightarrow> handle \<times> state" where
  "newPromise s = (length (promises s), s\<lparr>promises := promises s @ [Pending]\<rparr>)"

definition Promise_resolve :: "jsval \<Rightarrow> state \<Rightarrow> handle \<times> state" where
  "Promise_resolve v s = (length (promises s), s\<lparr>promises := promises s @ [Resolved v]\<rparr>)"

definition resolve :: "handle \<Rightarrow> jsval \<Rightarrow> state \<Rightarrow> state" where
  "resolve h v s = s\<lparr>promises := settle h (Resolved v) (promises s)\<rparr>"

definition reject :: "handle \<Rightarrow> jsval \<Rightarrow> state \<Rightarrow> state" where
  "reject h v s = s\<lparr>promises := settle h (Rejected v) (promises s)\<rparr>"

text \<open>
  Modelled from the spec: the actor registry of the transport (connection.ts is not among
  the sources). \<open>register(actorProxy)\<close> "registers this actor instance so inbound
  messages addressed to its name reach it"; \<open>getOrCreate(actorName, factoryFn)\<close>
  "returns the existing actor for actorName or constructs one via factoryFn and stores
  it".
\<close>

definition register :: "string \<Rightarrow> state \<Rightarrow> state" where
  "register nm s = s\<lparr>registry := (registry s)(JStr nm \<mapsto> ThreadActor nm)\<rparr>"

definition getOrCreate :: "jsval \<Rightarrow> actor \<Rightarrow> state \<Rightarrow> actor \<times> state" where
  "getOrCreate actorName fresh s =
     (case registry s actorName of
        Some a \<Rightarrow> (a, s)
      | None \<Rightarrow> (fresh, s\<lparr>registry := (registry s)(actorName \<mapsto> fresh)\<rparr>))"

subsection \<open>Pending request queues\<close>

text \<open>
  Modelled from the spec: the class \<open>PendingRequests\<close> (pendingRequests.ts is not among
  the sources). "enqueue appends a handle to that kind's queue; resolveOne pops the
  oldest handle and settles it with value, and fails (logs/ignores, does not crash) if
  the queue is empty [...] surfaced as a warning, not a crash. rejectAll settles every
  queued handle as failed with reason and empties the queue." Each operation takes the
  queue and returns the new queue, which the caller stores back into its field.
\<close>

definition enqueue :: "handle list \<Rightarrow> handle \<Rightarrow> handle list" where
  "enqueue q h = q @ [h]"

definition resolveOne :: "handle list \<Rightarrow> jsval \<Rightarrow> state \<Rightarrow> handle list \<times> state" where
  "resolveOne q v s =
     (case q of
        [] \<Rightarrow> ([], log_warn [Text ''Received response without corresponding request''] s)
      | h # q' \<Rightarrow> (q', resolve h v s))"

fun rejectEach :: "handle list \<Rightarrow> jsval \<Rightarrow> state \<Rightarrow> state" where
  "rejectEach [] v s = s"
| "rejectEach (h # q) v s = rejectEach q v (reject h v s)"

definition rejectAll :: "handle list \<Rightarrow> jsval \<Rightarrow> state \<Rightarrow> handle list \<times> state" where
  "rejectAll q v s = ([], rejectEach q v s)"

subsection \<open>The constructor\<close>

text \<open>
  The slots start out \<open>undefined\<close>, the queues empty. The connection is given with the
  actors it already knows.
\<close>

definition ThreadActorProxy :: "string \<Rightarrow> (jsval \<rightharpoonup> actor) \<Rightarrow> state" where
  "ThreadActorProxy nm connection =
     log_debug [Text (''Created thread '' @ nm)]
       (register nm
          \<lparr>name = nm, promises = [],
           pendingAttachRequest = None, attachPromise = None,
           pendingResumeRequest = None, resumePromise = None,
           pendingInterruptRequest = None, interruptPromise = None,
           pendingDetachRequest = None, detachPromise = None,
           pendingSourcesRequests = [], pendingStackFramesRequests = [],
           pendingEvaluateRequests = [], pendingReleaseRequests = [],
           sent = [], registry = connection, emitted = [], logged = []\<rparr>)"

subsection \<open>The facade: lifecycle operations\<close>

text \<open>
  Each operation returns the handle of the promise the source returns. The executor of
  \<open>new Promise\<close> runs at once: it records the pending request and sends the message
  before the promise is stored in the slot.
\<close>

definition attach :: "state \<Rightarrow> handle \<times> state" where
  "attach s =
     (let s1 = log_debug [Text (''Attaching thread '' @ name s)] s in
      case attachPromise s1 of
        None \<Rightarrow>
          (let (h, s2) = newPromise s1;
               s3 = s2\<lparr>pendingAttachRequest := Some h\<rparr>;
               s4 = sendRequest (JObj [(''to'', JStr (name s3)), (''type'', JStr ''attach''),
                      (''options'', JObj [(''useSourceMaps'', JBool True)])]) s3;
               s5 = s4\<lparr>attachPromise := Some h\<rparr>
           in (h, s5\<lparr>detachPromise := None\<rparr>))
      | Some h \<Rightarrow>
          (h, log_warn [Text ''Attaching this thread has already been requested!''] s1))"

definition limit_name :: "resumeLimitType \<Rightarrow> string" where
  "limit_name t = (case t of Next \<Rightarrow> ''next'' | Step \<Rightarrow> ''step'' | Finish \<Rightarrow> ''finish'')"

definition resume :: "ExceptionBreakpoints \<Rightarrow> resumeLimitType option \<Rightarrow> state \<Rightarrow> handle \<times> state" where
  "resume exceptionBreakpoints resumeLimitType s =
     (let s1 = log_debug [Text (''Resuming thread '' @ name s)] s in
      case resumePromise s1 of
        None \<Rightarrow>
          (let resumeLimit =
                 (case resumeLimitType of
                    Some t \<Rightarrow> JObj [(''type'', JStr (limit_name t))]
                  | None \<Rightarrow> JUndefined);
               pauseOnExceptions =
                 (case exceptionBreakpoints of
                    AllE \<Rightarrow> JBool True
                  | UncaughtE \<Rightarrow> JBool True
                  | NoneE \<Rightarrow> JUndefined);
               ignoreCaughtExceptions =
                 (case exceptionBreakpoints of
                    AllE \<Rightarrow> JUndefined
                  | UncaughtE \<Rightarrow> JBool True
                  | NoneE \<Rightarrow> JUndefined);
               (h, s2) = newPromise s1;
               s3 = s2\<lparr>pendingResumeRequest := Some h\<rparr>;
               s4 = sendRequest (JObj [(''to'', JStr (name s3)), (''type'', JStr ''resume''),
                      (''resumeLimit'', resumeLimit),
                      (''pauseOnExceptions'', pauseOnExceptions),
                      (''ignoreCaughtExceptions'', ignoreCaughtExceptions)]) s3;
               s5 = s4\<lparr>resumePromise := Some h\<rparr>
           in (h, s5\<lparr>interruptPromise := None\<rparr>))
      | Some h \<Rightarrow> (h, s1))"

definition interrupt :: "state \<Rightarrow> handle \<times> state" where
  "interrupt s =
     (let s1 = log_debug [Text (''Interrupting thread '' @ name s)] s in
      case interruptPromise s1 of
        None \<Rightarrow>
          (let (h, s2) = newPromise s1;
               s3 = s2\<lparr>pendingInterruptRequest := Some h\<rparr>;
               s4 = sendRequest (JObj [(''to'', JStr (name s3)), (''type'', JStr ''interrupt'')]) s3;
               s5 = s4\<lparr>interruptPromise := Some h\<rparr>
           in (h, s5\<lparr>resumePromise := None\<rparr>))
      | Some h \<Rightarrow> (h, s1))"

definition detach :: "state \<Rightarrow> handle \<times> state" where
  "detach s =
     (let s1 = log_debug [Text (''Detaching thread '' @ name s)] s in
      case detachPromise s1 of
        None \<Rightarrow>
          (let (h, s2) = newPromise s1;
               s3 = s2\<lparr>pendingDetachRequest := Some h\<rparr>;
               s4 = sendRequest (JObj [(''to'', JStr (name s3)), (''type'', JStr ''detach'')]) s3;
               s5 = s4\<lparr>detachPromise := Some h\<rparr>
           in (h, s5\<lparr>attachPromise := None\<rparr>))
      | Some h \<Rightarrow>
          (h, log_warn [Text ''Detaching this thread has already been requested!''] s1))"

subsection \<open>The facade: data operations\<close>

definition fetchSources :: "state \<Rightarrow> handle \<times> state" where
  "fetchSources s =
     (let s1 = log_debug [Text (''Fetching sources from thread '' @ name s)] s;
          (h, s2) = newPromise s1;
          s3 = s2\<lparr>pendingSourcesRequests := enqueue (pendingSourcesRequests s2) h\<rparr>
      in (h, sendRequest (JObj [(''to'', JStr (name s3)), (''type'', JStr ''sources'')]) s3))"

definition fetchStackFrames :: "int \<Rightarrow> state \<Rightarrow> handle \<times> state" where
  "fetchStackFrames levels s =
     (let s1 = log_debug [Text (''Fetching stackframes from thread '' @ name s)] s;
          (h, s2) = newPromise s1;
          s3 = s2\<lparr>pendingStackFramesRequests := enqueue (pendingStackFramesRequests s2) h\<rparr>
      in (h, sendRequest (JObj [(''to'', JStr (name s3)), (''type'', JStr ''frames''),
                (''start'', JNum 0), (''count'', JNum levels)]) s3))"

text \<open>
  \<open>str.replace(/c/g, rep)\<close> for a pattern that matches the single character \<open>c\<close> and a
  replacement text without \<open>$\<close>: every occurrence of \<open>c\<close> is replaced.
\<close>

definition replace_all :: "char \<Rightarrow> string \<Rightarrow> string \<Rightarrow> string" where
  "replace_all c rep str = concat (map (\<lambda>x. if x = c then rep else [x]) str)"

definition backslash :: char where
  "backslash = CHR 0x5C"

definition dquote :: char where
  "dquote = CHR 0x22"

definition escapedExpression :: "string \<Rightarrow> string" where
  "escapedExpression expr =
     replace_all dquote [backslash, dquote]
       (replace_all backslash [backslash, backslash] expr)"

definition tryExpression :: "string \<Rightarrow> string" where
  "tryExpression expr =
     ''eval('' @ [dquote] @ ''try{'' @ escapedExpression expr
       @ ''}catch(e){e.name+'' @ [CHR 0x27] @ '':'' @ [CHR 0x27] @ ''+e.message}''
       @ [dquote] @ '')''"

definition evaluate :: "string \<Rightarrow> string \<Rightarrow> state \<Rightarrow> handle \<times> state" where
  "evaluate expr frameActorName s =
     (let s1 = log_debug [Text (''Evaluating '' @ [CHR 0x27] @ expr @ [CHR 0x27]
                            @ '' on thread '' @ name s)] s;
          (h, s2) = newPromise s1;
          s3 = s2\<lparr>pendingEvaluateRequests := enqueue (pendingEvaluateRequests s2) h\<rparr>
      in (h, sendRequest (JObj [(''to'', JStr (name s3)), (''type'', JStr ''clientEvaluate''),
                (''expression'', JStr (tryExpression expr)),
                (''frame'', JStr frameActorName)]) s3))"

definition releaseMany :: "string list \<Rightarrow> state \<Rightarrow> handle \<times> state" where
  "releaseMany objectGripActorNames s =
     (let s1 = log_debug [Text (''Releasing grips on thread '' @ name s)] s;
          (h, s2) = newPromise s1;
          s3 = s2\<lparr>pendingReleaseRequests := enqueue (pendingReleaseRequests s2) h\<rparr>
      in (h, sendRequest (JObj [(''to'', JStr (name s3)), (''type'', JStr ''releaseMany''),
                (''actors'', JArr (map JStr objectGripActorNames))]) s3))"

subsection \<open>The dispatcher\<close>

text \<open>
  \<open>receiveResponse\<close> returns the new state and the exception it threw, if any: the
  assignments made before a throw stay. The \<open>switch\<close> on the pause reason is
  \<open>receivePaused\<close>; its cases compare with \<open>===\<close>. A debug line is built before
  \<open>log.debug\<close> is called: when the conversion of an interpolated value throws, nothing
  is logged and nothing after it happens.
\<close>

definition receivePaused :: "response \<Rightarrow> state \<Rightarrow> error option \<times> state" where
  "receivePaused response s =
     (let why = field response ''why'' in
      case js_get why ''type'' of
        Inl e \<Rightarrow> (Some e, s)
      | Inr ty \<Rightarrow>
          if ToString_throws ty then (Some TypeError, s) else
          (let s1 = log_debug [Text ''Received paused message of type '', Shown ty] s in
           if ty = JStr ''attached'' then
             (case pendingAttachRequest s1 of
                Some h \<Rightarrow>
                  (let s2 = resolve h JUndefined s1;
                       s3 = s2\<lparr>pendingAttachRequest := None\<rparr>;
                       (p, s4) = Promise_resolve JUndefined s3
                   in (None, s4\<lparr>interruptPromise := Some p\<rparr>))
              | None \<Rightarrow>
                  (None, log_warn [Text ''Received attached message without pending request''] s1))
           else if ty = JStr ''interrupted'' then
             (case pendingInterruptRequest s1 of
                Some h \<Rightarrow>
                  (let s2 = resolve h JUndefined s1
                   in (None, s2\<lparr>pendingInterruptRequest := None\<rparr>))
              | None \<Rightarrow>
                  (None, log_warn [Text ''Received interrupted message without pending request''] s1))
           else if ty = JStr ''resumeLimit'' \<or> ty = JStr ''breakpoint'' \<or> ty = JStr ''exception'' then
             (let (p, s2) = Promise_resolve JUndefined s1;
                  s3 = s2\<lparr>interruptPromise := Some p\<rparr>;
                  s4 = s3\<lparr>resumePromise := None\<rparr>;
                  s5 = s4\<lparr>pendingInterruptRequest := None\<rparr>;
                  s6 = s5\<lparr>pendingResumeRequest := None\<rparr>
              in (None, emit (PausedEvent why) s6))
           else if ty = JStr ''clientEvaluated'' then
             (let (p, s2) = Promise_resolve JUndefined s1;
                  s3 = s2\<lparr>interruptPromise := Some p\<rparr>;
                  s4 = s3\<lparr>resumePromise := None\<rparr>
              in case js_get why ''frameFinished'' of
                   Inl e \<Rightarrow> (Some e, s4)
                 | Inr frameFinished \<Rightarrow>
                     (case js_get frameFinished ''return'' of
                        Inl e \<Rightarrow> (Some e, s4)
                      | Inr v \<Rightarrow>
                          (let (q, s5) = resolveOne (pendingEvaluateRequests s4) v s4
                           in (None, s5\<lparr>pendingEvaluateRequests := q\<rparr>))))
           else
             (let s2 = log_warn [Text ''Paused event with reason '', Shown ty,
                                 Text '' not handled yet''] s1
              in (None, emit (PausedEvent why) s2))))"

definition receiveResponse :: "response \<Rightarrow> state \<Rightarrow> error option \<times> state" where
  "receiveResponse response s =
     (if field response ''type'' = JStr ''paused'' then receivePaused response s
      else if field response ''type'' = JStr ''resumed'' then
        (let s1 = log_debug [Text (''Received resumed event from '' @ name s)] s in
         case pendingResumeRequest s1 of
           Some h \<Rightarrow>
             (let s2 = resolve h JUndefined s1
              in (None, s2\<lparr>pendingResumeRequest := None\<rparr>))
         | None \<Rightarrow> (None, log_warn [Text ''Received resumed reply without pending request''] s1))
      else if field response ''type'' = JStr ''detached'' then
        (let s1 = log_debug [Text (''Thread '' @ name s @ '' detached'')] s;
             s2 = (case pendingDetachRequest s1 of
                     Some h \<Rightarrow> (resolve h JUndefined s1)\<lparr>pendingDetachRequest := None\<rparr>
                   | None \<Rightarrow>
                       log_warn [Text (''Thread '' @ name s1
                                       @ '' detached without a corresponding request'')] s1);
             (q1, s3) = rejectAll (pendingStackFramesRequests s2) (JStr ''Detached'') s2;
             s4 = s3\<lparr>pendingStackFramesRequests := q1\<rparr>;
             (q2, s5) = rejectAll (pendingEvaluateRequests s4) (JStr ''Detached'') s4
         in (None, s5\<lparr>pendingEvaluateRequests := q2\<rparr>))
      else if truthy (field response ''sources'') then
        (let sources = field response ''sources'' in
         case js_get sources ''length'' of
           Inl e \<Rightarrow> (Some e, s)
         | Inr n \<Rightarrow>
             if ToString_throws n then (Some TypeError, s) else
             (let s1 = log_debug [Text ''Received '', Shown n,
                                  Text ('' sources from thread '' @ name s)] s;
                  (q, s2) = resolveOne (pendingSourcesRequests s1) sources s1
              in (None, s2\<lparr>pendingSourcesRequests := q\<rparr>)))
      else if field response ''type'' = JStr ''newSource'' then
        (let source = field response ''source'' in
         case js_get source ''url'' of
           Inl e \<Rightarrow> (Some e, s)
         | Inr url \<Rightarrow>
             if ToString_throws url then (Some TypeError, s) else
             (let s1 = log_debug [Text ''New source '', Shown url,
                                  Text ('' on thread '' @ name s)] s in
              case js_get source ''actor'' of
                Inl e \<Rightarrow> (Some e, s1)
              | Inr actor \<Rightarrow>
                  (let (sourceActor, s2) = getOrCreate actor (SourceActor source) s1
                   in (None, emit (NewSourceEvent sourceActor) s2))))
      else if truthy (field response ''frames'') then
        (let frames = field response ''frames'' in
         case js_get frames ''length'' of
           Inl e \<Rightarrow> (Some e, s)
         | Inr n \<Rightarrow>
             if ToString_throws n then (Some TypeError, s) else
             (let s1 = log_debug [Text ''Received '', Shown n,
                                  Text ('' frames from thread '' @ name s)] s;
                  (q, s2) = resolveOne (pendingStackFramesRequests s1) frames s1
              in (None, s2\<lparr>pendingStackFramesRequests := q\<rparr>)))
      else if field response ''type'' = JStr ''exited'' then
        (let s1 = log_debug [Text (''Thread '' @ name s @ '' exited'')] s
         in (None, emit ExitedEvent s1))
      else if field response ''error'' = JStr ''wrongState'' then
        (let s1 = log_warn [Text (''Thread '' @ name s
                                  @ '' was in the wrong state for the last request'')] s
         in (None, emit WrongStateEvent s1))
      else if length (js_keys response) = 1 then
        (let s1 = log_debug [Text ''Received response to releaseMany request''] s;
             (q, s2) = resolveOne (pendingReleaseRequests s1) JUndefined s1
         in (None, s2\<lparr>pendingReleaseRequests := q\<rparr>))
      else if field response ''type'' = JStr ''newGlobal'' then
        (None, log_debug [Text (''Received newGlobal event from '' @ name s @ '' (ignoring)'')] s)
      else
        (None, log_warn [Text ''Unknown message from ThreadActor: '',
                         Stringified (JObj response)] s))"

subsection \<open>Sequences of calls and messages\<close>

text \<open>
  What a client and the transport do to the proxy, one at a time: a call of a public
  method or the delivery of an inbound message. A thrown exception goes to the caller;
  the proxy keeps the state it had reached.
\<close>

datatype action =
    Attach
  | Resume ExceptionBreakpoints "resumeLimitType option"
  | Interrupt
  | Detach
  | FetchSources
  | FetchStackFrames int
  | Evaluate string string
  | ReleaseMany "string list"
  | Receive response

fun step :: "action \<Rightarrow> state \<Rightarrow> state" where
  "step Attach s = snd (attach s)"
| "step (Resume e l) s = snd (resume e l s)"
| "step Interrupt s = snd (interrupt s)"
| "step Detach s = snd (detach s)"
| "step FetchSources s = snd (fetchSources s)"
| "step (FetchStackFrames n) s = snd (fetchStackFrames n s)"
| "step (Evaluate e f) s = snd (evaluate e f s)"
| "step (ReleaseMany ns) s = snd (releaseMany ns s)"
| "step (Receive r) s = snd (receiveResponse r s)"

fun run :: "action list \<Rightarrow> state \<Rightarrow> state" where
  "run [] s = s"
| "run (a # as) s = run as (step a s)"

definition is_call :: "action \<Rightarrow> bool" where
  "is_call a = (case a of Receive r \<Rightarrow> False | _ \<Rightarrow> True)"

text \<open>
  The four kinds of data operations; each kind has its own queue of pending requests.
\<close>

datatype kind = SourcesKind | StackFramesKind | EvaluateKind | ReleaseKind

fun queue :: "kind \<Rightarrow> state \<Rightarrow> handle list" where
  "queue SourcesKind s = pendingSourcesRequests s"
| "queue StackFramesKind s = pendingStackFramesRequests s"
| "queue EvaluateKind s = pendingEvaluateRequests s"
| "queue ReleaseKind s = pendingReleaseRequests s"

text \<open>
  The handle a call returns when it is the data operation of the given kind, and the
  handles returned by the calls of that kind in a sequence, in the order of the calls.
\<close>

fun returned :: "kind \<Rightarrow> action \<Rightarrow> state \<Rightarrow> handle list" where
  "returned SourcesKind FetchSources s = [fst (fetchSources s)]"
| "returned StackFramesKind (FetchStackFrames n) s = [fst (fetchStackFrames n s)]"
| "returned EvaluateKind (Evaluate e f) s = [fst (evaluate e f s)]"
| "returned ReleaseKind (ReleaseMany ns) s = [fst (releaseMany ns s)]"
| "returned k a s = []"

fun issued :: "kind \<Rightarrow> action list \<Rightarrow> state \<Rightarrow> handle list" where
  "issued k [] s = []"
| "issued k (a # as) s = returned k a s @ issued k as (step a s)"

text \<open>
  The branch of \<open>receiveResponse\<close> that ends in \<open>resolveOne\<close>, if the message reaches one:
  the kind of the queue and the value passed. The tests are those of \<open>receiveResponse\<close>
  and \<open>receivePaused\<close>, in their order; a message on which the dispatcher throws before
  \<open>resolveOne\<close> reaches none.
\<close>

definition data_reply :: "response \<Rightarrow> (kind \<times> jsval) option" where
  "data_reply r =
     (if field r ''type'' = JStr ''paused'' then
        (case js_get (field r ''why'') ''type'' of
           Inl e \<Rightarrow> None
         | Inr ty \<Rightarrow>
             if ty = JStr ''clientEvaluated'' then
               (case js_get (field r ''why'') ''frameFinished'' of
                  Inl e \<Rightarrow> None
                | Inr frameFinished \<Rightarrow>
                    (case js_get frameFinished ''return'' of
                       Inl e \<Rightarrow> None
                     | Inr v \<Rightarrow> Some (EvaluateKind, v)))
             else None)
      else if field r ''type'' = JStr ''resumed'' then None
      else if field r ''type'' = JStr ''detached'' then None
      else if truthy (field r ''sources'') then
        (case js_get (field r ''sources'') ''length'' of
           Inl e \<Rightarrow> None
         | Inr n \<Rightarrow>
             if ToString_throws n then None else Some (SourcesKind, field r ''sources''))
      else if field r ''type'' = JStr ''newSource'' then None
      else if truthy (field r ''frames'') then
        (case js_get (field r ''frames'') ''length'' of
           Inl e \<Rightarrow> None
         | Inr n \<Rightarrow>
             if ToString_throws n then None else Some (StackFramesKind, field r ''frames''))
      else if field r ''type'' = JStr ''exited'' then None
      else if field r ''error'' = JStr ''wrongState'' then None
      else if length (js_keys r) = 1 then Some (ReleaseKind, JUndefined)
      else None)"

text \<open>The values that a sequence of messages passes to \<open>resolveOne\<close> for one kind.\<close>

fun payloads :: "kind \<Rightarrow> response list \<Rightarrow> jsval list" where
  "payloads k [] = []"
| "payloads k (r # rs) =
     (case data_reply r of
        None \<Rightarrow> payloads k rs
      | Some (k', v) \<Rightarrow> if k' = k then v # payloads k rs else payloads k rs)"

text \<open>
  The handles the proxy can still settle: those in the four queues and in the four
  pending lifecycle requests. In a state built by the constructor and changed by the
  methods only, no handle is kept twice and each one is a pending promise of the store.
\<close>

definition slot :: "handle option \<Rightarrow> handle list" where
  "slot x = (case x of None \<Rightarrow> [] | Some h \<Rightarrow> [h])"

definition waiting :: "state \<Rightarrow> handle list" where
  "waiting s =
     pendingSourcesRequests s @ pendingStackFramesRequests s @ pendingEvaluateRequests s
       @ pendingReleaseRequests s
       @ slot (pendingAttachRequest s) @ slot (pendingResumeRequest s)
       @ slot (pendingInterruptRequest s) @ slot (pendingDetachRequest s)"

text \<open>The same, seen from one handle: kept at most once, and pending when kept.\<close>

definition handle_ok :: "state \<Rightarrow> handle \<Rightarrow> bool" where
  "handle_ok s h \<longleftrightarrow>
     count_list (waiting s) h \<le> 1 \<and>
     (0 < count_list (waiting s) h \<longrightarrow> h < length (promises s) \<and> promises s ! h = Pending)"

definition wellformed :: "state \<Rightarrow> bool" where
  "wellformed s \<longleftrightarrow>
     distinct (waiting s) \<and>
     list_all (\<lambda>h. h < length (promises s) \<and> promises s ! h = Pending) (waiting s)"

section \<open>Properties\<close>

subsection \<open>Auxiliary facts\<close>

lemmas prim_defs = log_debug_def log_warn_def sendRequest_def emit_def newPromise_def
  Promise_resolve_def resolve_def reject_def

lemma length_settle [simp]: "length (settle h p ps) = length ps"
  by (simp add: settle_def)

lemma settle_nth_pending:
  "h < length ps \<Longrightarrow> ps ! h = Pending \<Longrightarrow> settle h p ps ! h = p"
  by (simp add: settle_def)

lemma settle_nth_other: "h' \<noteq> h \<Longrightarrow> settle h p ps ! h' = ps ! h'"
  by (simp add: settle_def)

lemma settle_nth_settled: "ps ! h' \<noteq> Pending \<Longrightarrow> settle h p ps ! h' = ps ! h'"
  by (cases "h' = h") (auto simp add: settle_def)

lemma ThreadActorProxy_slots:
  "attachPromise (ThreadActorProxy nm c) = None"
  "resumePromise (ThreadActorProxy nm c) = None"
  "interruptPromise (ThreadActorProxy nm c) = None"
  "detachPromise (ThreadActorProxy nm c) = None"
  "promises (ThreadActorProxy nm c) = []"
  "sent (ThreadActorProxy nm c) = []"
  "name (ThreadActorProxy nm c) = nm"
  by (simp_all add: ThreadActorProxy_def register_def log_debug_def)

lemma rejectEach_eq:
  "rejectEach q v s = s\<lparr>promises := fold (\<lambda>h. settle h (Rejected v)) q (promises s)\<rparr>"
  by (induction q arbitrary: s) (simp_all add: reject_def)

lemma resolveOne_attachPromise [simp]:
  "attachPromise (snd (resolveOne q v s)) = attachPromise s"
  by (simp add: resolveOne_def prim_defs split: list.splits)

lemma rejectAll_attachPromise [simp]:
  "attachPromise (snd (rejectAll q v s)) = attachPromise s"
  by (simp add: rejectAll_def rejectEach_eq)

lemma getOrCreate_attachPromise [simp]:
  "attachPromise (snd (getOrCreate a f s)) = attachPromise s"
  by (simp add: getOrCreate_def split: option.splits)

lemma receivePaused_attachPromise:
  "attachPromise (snd (receivePaused r s)) = attachPromise s"
  by (simp add: receivePaused_def prim_defs Let_def split_beta
      split: sum.splits option.splits)

lemma receiveResponse_attachPromise:
  "attachPromise (snd (receiveResponse r s)) = attachPromise s"
  by (simp add: receiveResponse_def receivePaused_attachPromise prim_defs Let_def split_beta
      split: sum.splits option.splits)

lemma step_attachPromise:
  assumes "a \<noteq> Detach" and "attachPromise s = Some h"
  shows "attachPromise (step a s) = Some h"
  using assms
  by (cases a)
     (simp_all add: receiveResponse_attachPromise attach_def resume_def interrupt_def
        fetchSources_def fetchStackFrames_def evaluate_def releaseMany_def prim_defs Let_def
      split: option.splits)

lemma run_attachPromise:
  assumes "Detach \<notin> set acts" and "attachPromise s = Some h"
  shows "attachPromise (run acts s) = Some h"
  using assms
proof (induction acts arbitrary: s)
  case Nil
  then show ?case by simp
next
  case (Cons a acts)
  from Cons.prems have "attachPromise (step a s) = Some h"
    by (intro step_attachPromise) auto
  with Cons show ?case by simp
qed

lemma attach_sets_slot: "attachPromise (snd (attach s)) = Some (fst (attach s))"
  by (simp add: attach_def prim_defs Let_def split: option.splits)

subsection \<open>Exception-breakpoint mapping of resume\<close>

text \<open>
  C8. When \<open>resume\<close> issues its request (no resume result is cached), the outbound
  message is sent to the connection with type \<open>resume\<close> and:
  \<open>resume(All)\<close> sets \<open>pauseOnExceptions\<close> to true and leaves
  \<open>ignoreCaughtExceptions\<close> undefined; \<open>resume(Uncaught)\<close> sets both to true;
  \<open>resume(None)\<close> leaves both undefined; and without a step kind the message's
  \<open>resumeLimit\<close> is undefined.
\<close>

theorem resume_exception_breakpoints_mapping:
  assumes "resumePromise s = None"
  shows "\<exists>m. sent (snd (resume eb lim s)) = sent s @ [JObj m] \<and>
      field m ''type'' = JStr ''resume'' \<and>
      (eb = AllE \<longrightarrow> field m ''pauseOnExceptions'' = JBool True
                    \<and> field m ''ignoreCaughtExceptions'' = JUndefined) \<and>
      (eb = UncaughtE \<longrightarrow> field m ''pauseOnExceptions'' = JBool True
                    \<and> field m ''ignoreCaughtExceptions'' = JBool True) \<and>
      (eb = NoneE \<longrightarrow> field m ''pauseOnExceptions'' = JUndefined
                    \<and> field m ''ignoreCaughtExceptions'' = JUndefined) \<and>
      (lim = None \<longrightarrow> field m ''resumeLimit'' = JUndefined)"
  using assms
  by (cases eb; cases lim)
     (simp_all add: resume_def log_debug_def newPromise_def sendRequest_def field_def Let_def)

theorem resume_exception_breakpoints_mapping_witness:
  "resumePromise (ThreadActorProxy ''tab1'' Map.empty) = None \<and>
   (\<exists>m. sent (snd (resume AllE None (ThreadActorProxy ''tab1'' Map.empty))) = [JObj m] \<and>
        field m ''pauseOnExceptions'' = JBool True \<and>
        field m ''ignoreCaughtExceptions'' = JUndefined \<and>
        field m ''resumeLimit'' = JUndefined)"
proof -
  have h: "resumePromise (ThreadActorProxy ''tab1'' Map.empty) = None"
    by (simp add: ThreadActorProxy_def register_def log_debug_def)
  have e: "sent (ThreadActorProxy ''tab1'' Map.empty) = []"
    by (simp add: ThreadActorProxy_def register_def log_debug_def)
  from resume_exception_breakpoints_mapping [OF h, of AllE None] h e
  show ?thesis by auto
qed

subsection \<open>Mutual invalidation of resume and interrupt\<close>

text \<open>
  C4. When \<open>resume\<close> issues its request (no resume result is cached), the cached
  interrupt result is cleared: a following \<open>interrupt()\<close> returns a handle allocated by
  that call, pending, and sends an \<open>interrupt\<close> message. Symmetrically, when
  \<open>interrupt\<close> issues its request, the cached resume result is cleared and a following
  \<open>resume\<close> returns a newly allocated pending handle and sends a \<open>resume\<close> message.
\<close>

theorem resume_interrupt_mutual_invalidation:
  "(resumePromise s = None \<longrightarrow>
      interruptPromise (snd (resume eb lim s)) = None \<and>
      fst (interrupt (snd (resume eb lim s))) = length (promises (snd (resume eb lim s))) \<and>
      promises (snd (interrupt (snd (resume eb lim s))))
        = promises (snd (resume eb lim s)) @ [Pending] \<and>
      sent (snd (interrupt (snd (resume eb lim s))))
        = sent (snd (resume eb lim s))
            @ [JObj [(''to'', JStr (name s)), (''type'', JStr ''interrupt'')]]) \<and>
   (interruptPromise s = None \<longrightarrow>
      resumePromise (snd (interrupt s)) = None \<and>
      fst (resume eb lim (snd (interrupt s))) = length (promises (snd (interrupt s))) \<and>
      promises (snd (resume eb lim (snd (interrupt s))))
        = promises (snd (interrupt s)) @ [Pending] \<and>
      (\<exists>m. sent (snd (resume eb lim (snd (interrupt s))))
              = sent (snd (interrupt s)) @ [JObj m]
           \<and> field m ''type'' = JStr ''resume''))"
  by (simp add: resume_def interrupt_def prim_defs field_def Let_def)

theorem resume_interrupt_mutual_invalidation_witness:
  "resumePromise (ThreadActorProxy ''tab1'' Map.empty) = None \<and>
   interruptPromise (ThreadActorProxy ''tab1'' Map.empty) = None \<and>
   fst (interrupt (snd (resume AllE (Some Step) (ThreadActorProxy ''tab1'' Map.empty)))) = 1 \<and>
   sent (snd (interrupt (snd (resume AllE (Some Step) (ThreadActorProxy ''tab1'' Map.empty)))))
     = sent (snd (resume AllE (Some Step) (ThreadActorProxy ''tab1'' Map.empty)))
         @ [JObj [(''to'', JStr ''tab1''), (''type'', JStr ''interrupt'')]] \<and>
   fst (resume AllE (Some Step) (snd (interrupt (ThreadActorProxy ''tab1'' Map.empty)))) = 1"
proof -
  have l: "length (promises (snd (resume AllE (Some Step) (ThreadActorProxy ''tab1'' Map.empty)))) = 1"
          "length (promises (snd (interrupt (ThreadActorProxy ''tab1'' Map.empty)))) = 1"
    by (simp_all add: resume_def interrupt_def ThreadActorProxy_slots prim_defs Let_def)
  from resume_interrupt_mutual_invalidation
         [of "ThreadActorProxy ''tab1'' Map.empty" AllE "Some Step"] l
  show ?thesis by (simp add: ThreadActorProxy_slots)
qed

subsection \<open>Attach\<close>

text \<open>
  C6. After \<open>attach()\<close>, whatever calls other than \<open>detach()\<close> and whatever inbound
  messages follow, a second \<open>attach()\<close> returns the same handle as the first, sends no
  message, and changes nothing but the log, to which it adds its debug line and the
  warning that attaching has already been requested.
\<close>

theorem attach_twice_same_handle:
  assumes "Detach \<notin> set acts"
  shows "fst (attach (run acts (snd (attach s)))) = fst (attach s) \<and>
         sent (snd (attach (run acts (snd (attach s))))) = sent (run acts (snd (attach s))) \<and>
         snd (attach (run acts (snd (attach s)))) =
           (run acts (snd (attach s)))
             \<lparr>logged := logged (run acts (snd (attach s))) @
                [(Debug, [Text (''Attaching thread '' @ name (run acts (snd (attach s))))]),
                 (Warn, [Text ''Attaching this thread has already been requested!''])]\<rparr>"
proof -
  have "attachPromise (run acts (snd (attach s))) = Some (fst (attach s))"
    using assms attach_sets_slot by (rule run_attachPromise)
  then show ?thesis
    by (simp add: attach_def [of "run acts (snd (attach s))"] prim_defs Let_def)
qed

theorem attach_twice_same_handle_witness:
  "Detach \<notin> set [Resume NoneE None, Receive [(''from'', JStr ''tab1''), (''type'', JStr ''resumed'')]] \<and>
   fst (attach (ThreadActorProxy ''tab1'' Map.empty)) = 0 \<and>
   fst (attach (run [Resume NoneE None,
                     Receive [(''from'', JStr ''tab1''), (''type'', JStr ''resumed'')]]
                  (snd (attach (ThreadActorProxy ''tab1'' Map.empty))))) = 0 \<and>
   sent (snd (attach (run [Resume NoneE None,
                     Receive [(''from'', JStr ''tab1''), (''type'', JStr ''resumed'')]]
                  (snd (attach (ThreadActorProxy ''tab1'' Map.empty))))))
     = sent (run [Resume NoneE None,
                     Receive [(''from'', JStr ''tab1''), (''type'', JStr ''resumed'')]]
                  (snd (attach (ThreadActorProxy ''tab1'' Map.empty))))"
proof -
  have a: "fst (attach (ThreadActorProxy ''tab1'' Map.empty)) = 0"
    by (simp add: ThreadActorProxy_slots attach_def prim_defs Let_def)
  have d: "Detach \<notin> set [Resume NoneE None,
                           Receive [(''from'', JStr ''tab1''), (''type'', JStr ''resumed'')]]"
    by simp
  from attach_twice_same_handle [OF d, of "ThreadActorProxy ''tab1'' Map.empty"] a d
  show ?thesis by simp
qed




subsection \<open>Routing by pause reason\<close>

text \<open>
  C1. For an inbound message of type \<open>paused\<close> whose pause reason is \<open>attached\<close>, the
  dispatcher returns normally and emits no event; when an attach request is pending it
  resolves that handle, clears the pending request and seeds the interrupt slot with a
  newly allocated, already resolved promise. When the reason is \<open>breakpoint\<close>,
  \<open>resumeLimit\<close> or \<open>exception\<close>, it seeds the interrupt slot with a newly allocated,
  already resolved promise, clears the resume slot and the pending resume request,
  emits one \<open>paused\<close> event carrying the reason object, and changes no promise that
  existed before: a pending resume handle is not settled.
\<close>

theorem paused_reason_routing:
  assumes "field r ''type'' = JStr ''paused''"
    and "js_get (field r ''why'') ''type'' = Inr (JStr reason)"
  shows "(reason = ''attached'' \<longrightarrow>
           fst (receiveResponse r s) = None \<and>
           emitted (snd (receiveResponse r s)) = emitted s \<and>
           (\<forall>h. pendingAttachRequest s = Some h \<longrightarrow>
              pendingAttachRequest (snd (receiveResponse r s)) = None \<and>
              length (promises (snd (receiveResponse r s))) = Suc (length (promises s)) \<and>
              interruptPromise (snd (receiveResponse r s)) = Some (length (promises s)) \<and>
              promises (snd (receiveResponse r s)) ! length (promises s) = Resolved JUndefined \<and>
              (h < length (promises s) \<and> promises s ! h = Pending \<longrightarrow>
                 promises (snd (receiveResponse r s)) ! h = Resolved JUndefined))) \<and>
         (reason = ''breakpoint'' \<or> reason = ''resumeLimit'' \<or> reason = ''exception'' \<longrightarrow>
           fst (receiveResponse r s) = None \<and>
           promises (snd (receiveResponse r s)) = promises s @ [Resolved JUndefined] \<and>
           interruptPromise (snd (receiveResponse r s)) = Some (length (promises s)) \<and>
           resumePromise (snd (receiveResponse r s)) = None \<and>
           pendingResumeRequest (snd (receiveResponse r s)) = None \<and>
           (\<forall>h < length (promises s).
              promises (snd (receiveResponse r s)) ! h = promises s ! h) \<and>
           emitted (snd (receiveResponse r s)) = emitted s @ [PausedEvent (field r ''why'')])"
  using assms
  by (auto simp add: receiveResponse_def receivePaused_def prim_defs Let_def nth_append
        settle_nth_pending split: option.splits)

theorem paused_reason_routing_witness:
  "field [(''type'', JStr ''paused''), (''why'', JObj [(''type'', JStr ''attached'')])] ''type''
     = JStr ''paused'' \<and>
   js_get (field [(''type'', JStr ''paused''), (''why'', JObj [(''type'', JStr ''attached'')])]
             ''why'') ''type'' = Inr (JStr ''attached'') \<and>
   pendingAttachRequest (snd (attach (ThreadActorProxy ''tab1'' Map.empty))) = Some 0 \<and>
   promises (snd (attach (ThreadActorProxy ''tab1'' Map.empty))) = [Pending] \<and>
   promises (snd (receiveResponse
       [(''type'', JStr ''paused''), (''why'', JObj [(''type'', JStr ''attached'')])]
       (snd (attach (ThreadActorProxy ''tab1'' Map.empty))))) ! 0 = Resolved JUndefined \<and>
   emitted (snd (receiveResponse
       [(''type'', JStr ''paused''), (''why'', JObj [(''type'', JStr ''attached'')])]
       (snd (attach (ThreadActorProxy ''tab1'' Map.empty)))))
     = emitted (snd (attach (ThreadActorProxy ''tab1'' Map.empty))) \<and>
   field [(''type'', JStr ''paused''), (''why'', JObj [(''type'', JStr ''breakpoint'')])] ''type''
     = JStr ''paused'' \<and>
   js_get (field [(''type'', JStr ''paused''), (''why'', JObj [(''type'', JStr ''breakpoint'')])]
             ''why'') ''type'' = Inr (JStr ''breakpoint'') \<and>
   pendingResumeRequest (snd (resume AllE None (ThreadActorProxy ''tab1'' Map.empty))) = Some 0 \<and>
   promises (snd (receiveResponse
       [(''type'', JStr ''paused''), (''why'', JObj [(''type'', JStr ''breakpoint'')])]
       (snd (resume AllE None (ThreadActorProxy ''tab1'' Map.empty)))))
     = [Pending, Resolved JUndefined] \<and>
   emitted (snd (receiveResponse
       [(''type'', JStr ''paused''), (''why'', JObj [(''type'', JStr ''breakpoint'')])]
       (snd (resume AllE None (ThreadActorProxy ''tab1'' Map.empty)))))
     = emitted (snd (resume AllE None (ThreadActorProxy ''tab1'' Map.empty)))
         @ [PausedEvent (JObj [(''type'', JStr ''breakpoint'')])]"
proof -
  have t1: "field [(''type'', JStr ''paused''), (''why'', JObj [(''type'', JStr ''attached'')])]
              ''type'' = JStr ''paused''"
    and w1: "js_get (field [(''type'', JStr ''paused''),
                            (''why'', JObj [(''type'', JStr ''attached'')])] ''why'') ''type''
              = Inr (JStr ''attached'')"
    and t2: "field [(''type'', JStr ''paused''), (''why'', JObj [(''type'', JStr ''breakpoint'')])]
              ''type'' = JStr ''paused''"
    and w2: "js_get (field [(''type'', JStr ''paused''),
                            (''why'', JObj [(''type'', JStr ''breakpoint'')])] ''why'') ''type''
              = Inr (JStr ''breakpoint'')"
    and y2: "field [(''type'', JStr ''paused''), (''why'', JObj [(''type'', JStr ''breakpoint'')])]
              ''why'' = JObj [(''type'', JStr ''breakpoint'')]"
    by (simp_all add: field_def)
  have a: "pendingAttachRequest (snd (attach (ThreadActorProxy ''tab1'' Map.empty))) = Some 0"
    and pa: "promises (snd (attach (ThreadActorProxy ''tab1'' Map.empty))) = [Pending]"
    by (simp_all add: attach_def ThreadActorProxy_slots prim_defs Let_def)
  have b: "pendingResumeRequest (snd (resume AllE None (ThreadActorProxy ''tab1'' Map.empty)))
             = Some 0"
    and pb: "promises (snd (resume AllE None (ThreadActorProxy ''tab1'' Map.empty))) = [Pending]"
    by (simp_all add: resume_def ThreadActorProxy_slots prim_defs Let_def)
  from paused_reason_routing [OF t1 w1, of "snd (attach (ThreadActorProxy ''tab1'' Map.empty))"]
       paused_reason_routing [OF t2 w2, of "snd (resume AllE None (ThreadActorProxy ''tab1'' Map.empty))"]
       t1 w1 t2 w2 y2 a pa b pb
  show ?thesis by simp
qed

subsection \<open>Unrecognized messages\<close>

text \<open>
  C9. For an inbound message that none of the earlier branches of the dispatcher
  accepts (its type is none of \<open>paused\<close>, \<open>resumed\<close>, \<open>detached\<close>, \<open>newSource\<close>,
  \<open>exited\<close>; its \<open>sources\<close> and \<open>frames\<close> fields are falsy; its \<open>error\<close> is not
  \<open>wrongState\<close>; it does not have exactly one field), \<open>receiveResponse\<close> returns without
  throwing and changes nothing but the log: for type \<open>newGlobal\<close> it adds a debug line
  and no warning, for anything else one warning holding the message. Slots, queues,
  promises, sent messages and emitted events stay as they were.
\<close>

theorem unrecognized_message_only_logged:
  assumes "field r ''type'' \<noteq> JStr ''paused''"
    and "field r ''type'' \<noteq> JStr ''resumed''"
    and "field r ''type'' \<noteq> JStr ''detached''"
    and "\<not> truthy (field r ''sources'')"
    and "field r ''type'' \<noteq> JStr ''newSource''"
    and "\<not> truthy (field r ''frames'')"
    and "field r ''type'' \<noteq> JStr ''exited''"
    and "field r ''error'' \<noteq> JStr ''wrongState''"
    and "length (js_keys r) \<noteq> 1"
  shows "fst (receiveResponse r s) = None \<and>
         snd (receiveResponse r s) = s\<lparr>logged := logged s @
           [if field r ''type'' = JStr ''newGlobal''
            then (Debug, [Text (''Received newGlobal event from '' @ name s @ '' (ignoring)'')])
            else (Warn, [Text ''Unknown message from ThreadActor: '', Stringified (JObj r)])]\<rparr>"
  using assms by (simp add: receiveResponse_def prim_defs)

theorem unrecognized_message_only_logged_witness:
  "length (js_keys [(''from'', JStr ''tab1''), (''type'', JStr ''newGlobal'')]) \<noteq> 1 \<and>
   \<not> truthy (field [(''from'', JStr ''tab1''), (''type'', JStr ''newGlobal'')] ''sources'') \<and>
   receiveResponse [(''from'', JStr ''tab1''), (''type'', JStr ''newGlobal'')]
       (ThreadActorProxy ''tab1'' Map.empty)
     = (None, (ThreadActorProxy ''tab1'' Map.empty)
         \<lparr>logged := logged (ThreadActorProxy ''tab1'' Map.empty) @
            [(Debug, [Text ''Received newGlobal event from tab1 (ignoring)''])]\<rparr>) \<and>
   length (js_keys [(''from'', JStr ''tab1''), (''type'', JStr ''tabNavigated'')]) \<noteq> 1 \<and>
   receiveResponse [(''from'', JStr ''tab1''), (''type'', JStr ''tabNavigated'')]
       (ThreadActorProxy ''tab1'' Map.empty)
     = (None, (ThreadActorProxy ''tab1'' Map.empty)
         \<lparr>logged := logged (ThreadActorProxy ''tab1'' Map.empty) @
            [(Warn, [Text ''Unknown message from ThreadActor: '',
                     Stringified (JObj [(''from'', JStr ''tab1''),
                                        (''type'', JStr ''tabNavigated'')])])]\<rparr>)"
proof -
  let ?g = "[(''from'', JStr ''tab1''), (''type'', JStr ''newGlobal'')]"
  let ?u = "[(''from'', JStr ''tab1''), (''type'', JStr ''tabNavigated'')]"
  have tg: "field ?g ''type'' = JStr ''newGlobal''"
    and tu: "field ?u ''type'' = JStr ''tabNavigated''"
    and fg: "field ?g ''sources'' = JUndefined" "field ?g ''frames'' = JUndefined"
            "field ?g ''error'' = JUndefined"
    and fu: "field ?u ''sources'' = JUndefined" "field ?u ''frames'' = JUndefined"
            "field ?u ''error'' = JUndefined"
    by (simp_all add: field_def)
  have kg: "length (js_keys ?g) \<noteq> 1" and ku: "length (js_keys ?u) \<noteq> 1"
    by (simp_all add: js_keys_def)
  have g: "fst (receiveResponse ?g (ThreadActorProxy ''tab1'' Map.empty)) = None \<and>
           snd (receiveResponse ?g (ThreadActorProxy ''tab1'' Map.empty))
             = (ThreadActorProxy ''tab1'' Map.empty)
                 \<lparr>logged := logged (ThreadActorProxy ''tab1'' Map.empty) @
                    [(Debug, [Text ''Received newGlobal event from tab1 (ignoring)''])]\<rparr>"
    using unrecognized_message_only_logged [of ?g "ThreadActorProxy ''tab1'' Map.empty"] kg
    by (simp add: tg fg ThreadActorProxy_slots)
  have u: "fst (receiveResponse ?u (ThreadActorProxy ''tab1'' Map.empty)) = None \<and>
           snd (receiveResponse ?u (ThreadActorProxy ''tab1'' Map.empty))
             = (ThreadActorProxy ''tab1'' Map.empty)
                 \<lparr>logged := logged (ThreadActorProxy ''tab1'' Map.empty) @
                    [(Warn, [Text ''Unknown message from ThreadActor: '',
                             Stringified (JObj ?u)])]\<rparr>"
    using unrecognized_message_only_logged [of ?u "ThreadActorProxy ''tab1'' Map.empty"] ku
    by (simp add: tu fu)
  from g u kg ku fg show ?thesis
    by (simp add: prod_eq_iff)
qed

subsection \<open>The pending resume request across an evaluation\<close>

text \<open>
  C10. A \<open>paused\<close> message with reason \<open>clientEvaluated\<close> clears the cached resume
  promise and keeps the pending resume request (also when reading the result of the
  evaluation throws). A \<open>resumed\<close> message that follows therefore settles that request:
  it resolves the handle, clears the pending request and logs no warning. A \<open>paused\<close>
  message with reason \<open>resumeLimit\<close>, \<open>breakpoint\<close> or \<open>exception\<close> clears both the
  cached promise and the pending request, so that a \<open>resumed\<close> message that follows
  settles nothing and logs the warning that no request is pending.
\<close>

theorem clientEvaluated_keeps_pending_resume:
  assumes "field r1 ''type'' = JStr ''paused''"
    and "js_get (field r1 ''why'') ''type'' = Inr (JStr ''clientEvaluated'')"
    and "field r2 ''type'' = JStr ''resumed''"
    and "field r3 ''type'' = JStr ''paused''"
    and "js_get (field r3 ''why'') ''type'' = Inr (JStr reason)"
    and "reason = ''resumeLimit'' \<or> reason = ''breakpoint'' \<or> reason = ''exception''"
    and "pendingResumeRequest s = Some h"
  shows "resumePromise (snd (receiveResponse r1 s)) = None \<and>
         pendingResumeRequest (snd (receiveResponse r1 s)) = Some h \<and>
         fst (receiveResponse r2 (snd (receiveResponse r1 s))) = None \<and>
         pendingResumeRequest (snd (receiveResponse r2 (snd (receiveResponse r1 s)))) = None \<and>
         promises (snd (receiveResponse r2 (snd (receiveResponse r1 s))))
           = settle h (Resolved JUndefined) (promises (snd (receiveResponse r1 s))) \<and>
         logged (snd (receiveResponse r2 (snd (receiveResponse r1 s))))
           = logged (snd (receiveResponse r1 s))
               @ [(Debug, [Text (''Received resumed event from '' @ name s)])] \<and>
         (h < length (promises s) \<and> promises s ! h = Pending
            \<and> h \<notin> set (pendingEvaluateRequests s) \<longrightarrow>
          promises (snd (receiveResponse r2 (snd (receiveResponse r1 s)))) ! h
            = Resolved JUndefined) \<and>
         resumePromise (snd (receiveResponse r3 s)) = None \<and>
         pendingResumeRequest (snd (receiveResponse r3 s)) = None \<and>
         promises (snd (receiveResponse r2 (snd (receiveResponse r3 s))))
           = promises (snd (receiveResponse r3 s)) \<and>
         logged (snd (receiveResponse r2 (snd (receiveResponse r3 s))))
           = logged (snd (receiveResponse r3 s))
               @ [(Debug, [Text (''Received resumed event from '' @ name s)]),
                  (Warn, [Text ''Received resumed reply without pending request''])]"
proof -
  let ?s1 = "snd (receiveResponse r1 s)"
  let ?s3 = "snd (receiveResponse r3 s)"
  have s1: "resumePromise ?s1 = None" "pendingResumeRequest ?s1 = Some h" "name ?s1 = name s"
    using assms(1,2,7)
    by (simp_all add: receiveResponse_def receivePaused_def resolveOne_def prim_defs Let_def
          split_beta split: sum.splits list.splits)
  have p1: "promises ?s1 ! h = Pending"
    if "h < length (promises s)" "promises s ! h = Pending" "h \<notin> set (pendingEvaluateRequests s)"
    using assms(1,2) that
    by (auto simp add: receiveResponse_def receivePaused_def resolveOne_def prim_defs Let_def
          split_beta nth_append settle_nth_other split: sum.splits list.splits)
  have l1: "length (promises s) \<le> length (promises ?s1)"
    using assms(1,2)
    by (simp add: receiveResponse_def receivePaused_def resolveOne_def prim_defs Let_def
          split_beta split: sum.splits list.splits)
  have s3: "resumePromise ?s3 = None" "pendingResumeRequest ?s3 = None" "name ?s3 = name s"
    using assms(4,5,6)
    by (auto simp add: receiveResponse_def receivePaused_def prim_defs Let_def)
  have r2: "receiveResponse r2 t =
      (case pendingResumeRequest t of
         Some h \<Rightarrow> (None, t\<lparr>logged := logged t @ [(Debug, [Text (''Received resumed event from '' @ name t)])],
                            promises := settle h (Resolved JUndefined) (promises t),
                            pendingResumeRequest := None\<rparr>)
       | None \<Rightarrow> (None, t\<lparr>logged := logged t @ [(Debug, [Text (''Received resumed event from '' @ name t)]),
                   (Warn, [Text ''Received resumed reply without pending request''])]\<rparr>))" for t
    using assms(3) by (simp add: receiveResponse_def prim_defs Let_def split: option.splits)
  have a: "promises (snd (receiveResponse r2 ?s1)) ! h = Resolved JUndefined"
    if "h < length (promises s)" "promises s ! h = Pending" "h \<notin> set (pendingEvaluateRequests s)"
    using p1 [OF that] l1 that(1) by (simp add: r2 s1 settle_nth_pending)
  show ?thesis
    using a by (simp add: r2 s1 s3)
qed
theorem clientEvaluated_keeps_pending_resume_witness:
  "pendingResumeRequest (snd (resume NoneE None (ThreadActorProxy ''tab1'' Map.empty))) = Some 0 \<and>
   promises (snd (resume NoneE None (ThreadActorProxy ''tab1'' Map.empty))) ! 0 = Pending \<and>
   pendingResumeRequest (snd (receiveResponse
       [(''type'', JStr ''paused''),
        (''why'', JObj [(''type'', JStr ''clientEvaluated''),
                        (''frameFinished'', JObj [(''return'', JNum 42)])])]
       (snd (resume NoneE None (ThreadActorProxy ''tab1'' Map.empty))))) = Some 0 \<and>
   promises (snd (receiveResponse [(''from'', JStr ''tab1''), (''type'', JStr ''resumed'')]
     (snd (receiveResponse
       [(''type'', JStr ''paused''),
        (''why'', JObj [(''type'', JStr ''clientEvaluated''),
                        (''frameFinished'', JObj [(''return'', JNum 42)])])]
       (snd (resume NoneE None (ThreadActorProxy ''tab1'' Map.empty))))))) ! 0
     = Resolved JUndefined \<and>
   pendingResumeRequest (snd (receiveResponse
       [(''type'', JStr ''paused''), (''why'', JObj [(''type'', JStr ''breakpoint'')])]
       (snd (resume NoneE None (ThreadActorProxy ''tab1'' Map.empty))))) = None"
proof -
  let ?s = "snd (resume NoneE None (ThreadActorProxy ''tab1'' Map.empty))"
  let ?r1 = "[(''type'', JStr ''paused''),
        (''why'', JObj [(''type'', JStr ''clientEvaluated''),
                        (''frameFinished'', JObj [(''return'', JNum 42)])])]"
  let ?r2 = "[(''from'', JStr ''tab1''), (''type'', JStr ''resumed'')]"
  let ?r3 = "[(''type'', JStr ''paused''), (''why'', JObj [(''type'', JStr ''breakpoint'')])]"
  have t1: "field ?r1 ''type'' = JStr ''paused''"
    and w1: "js_get (field ?r1 ''why'') ''type'' = Inr (JStr ''clientEvaluated'')"
    and t2: "field ?r2 ''type'' = JStr ''resumed''"
    and t3: "field ?r3 ''type'' = JStr ''paused''"
    and w3: "js_get (field ?r3 ''why'') ''type'' = Inr (JStr ''breakpoint'')"
    by (simp_all add: field_def)
  have k: "''breakpoint'' = ''resumeLimit'' \<or> ''breakpoint'' = ''breakpoint''
             \<or> ''breakpoint'' = ''exception''"
    by simp
  have p: "pendingResumeRequest ?s = Some 0"
    and q: "promises ?s = [Pending]" "pendingEvaluateRequests ?s = []"
    by (simp_all add: resume_def ThreadActorProxy_def register_def prim_defs Let_def)
  have c: "0 < length (promises ?s) \<and> promises ?s ! 0 = Pending
             \<and> 0 \<notin> set (pendingEvaluateRequests ?s)"
    by (simp add: q)
  from clientEvaluated_keeps_pending_resume [OF t1 w1 t2 t3 w3 k p] c
  have "pendingResumeRequest (snd (receiveResponse ?r1 ?s)) = Some 0 \<and>
        promises (snd (receiveResponse ?r2 (snd (receiveResponse ?r1 ?s)))) ! 0
          = Resolved JUndefined \<and>
        pendingResumeRequest (snd (receiveResponse ?r3 ?s)) = None"
    by blast
  with p c show ?thesis by blast
qed

subsection \<open>Detach\<close>

lemma length_fold_settle [simp]:
  "length (fold (\<lambda>h. settle h p) q ps) = length ps"
  by (induction q arbitrary: ps) simp_all

lemma fold_settle_nth_other:
  "h \<notin> set q \<Longrightarrow> fold (\<lambda>h. settle h p) q ps ! h = ps ! h"
  by (induction q arbitrary: ps) (simp_all add: settle_nth_other)

lemma fold_settle_nth_settled:
  "ps ! h \<noteq> Pending \<Longrightarrow> fold (\<lambda>h. settle h p) q ps ! h = ps ! h"
  by (induction q arbitrary: ps) (simp_all add: settle_nth_settled)

lemma fold_settle_nth_pending:
  assumes "h \<in> set q" and "h < length ps" and "ps ! h = Pending" and "p \<noteq> Pending"
  shows "fold (\<lambda>h. settle h p) q ps ! h = p"
  using assms
proof (induction q arbitrary: ps)
  case Nil
  then show ?case by simp
next
  case (Cons a q)
  show ?case
  proof (cases "a = h")
    case True
    with Cons.prems have "settle a p ps ! h = p"
      by (simp add: settle_nth_pending)
    with Cons.prems(4) show ?thesis
      by (simp add: fold_settle_nth_settled)
  next
    case False
    with Cons.prems have "h \<in> set q" and "settle a p ps ! h = Pending"
      by (simp_all add: settle_nth_other)
    with Cons.IH [of "settle a p ps"] Cons.prems show ?thesis by simp
  qed
qed

lemma receive_detached_eq:
  assumes "field r ''type'' = JStr ''detached''"
  shows "receiveResponse r s =
     (None,
      (case pendingDetachRequest s of
         Some d \<Rightarrow>
           s\<lparr>logged := logged s @ [(Debug, [Text (''Thread '' @ name s @ '' detached'')])],
             promises :=
               fold (\<lambda>h. settle h (Rejected (JStr ''Detached''))) (pendingEvaluateRequests s)
                 (fold (\<lambda>h. settle h (Rejected (JStr ''Detached'')))
                    (pendingStackFramesRequests s)
                    (settle d (Resolved JUndefined) (promises s))),
             pendingDetachRequest := None,
             pendingStackFramesRequests := [], pendingEvaluateRequests := []\<rparr>
       | None \<Rightarrow>
           s\<lparr>logged := logged s @
               [(Debug, [Text (''Thread '' @ name s @ '' detached'')]),
                (Warn, [Text (''Thread '' @ name s
                               @ '' detached without a corresponding request'')])],
             promises :=
               fold (\<lambda>h. settle h (Rejected (JStr ''Detached''))) (pendingEvaluateRequests s)
                 (fold (\<lambda>h. settle h (Rejected (JStr ''Detached'')))
                    (pendingStackFramesRequests s) (promises s)),
             pendingStackFramesRequests := [], pendingEvaluateRequests := []\<rparr>))"
  using assms
  by (simp add: receiveResponse_def rejectAll_def rejectEach_eq prim_defs Let_def
      split: option.splits)

text \<open>
  C5. On a message of type \<open>detached\<close> the dispatcher returns normally. If a detach
  request is pending it resolves that handle and clears the pending request, logging
  no warning; otherwise it logs a warning. In both cases every handle queued for stack
  frames or for an evaluation that is still pending is rejected with the reason
  \<open>Detached\<close>, and these two queues are emptied. The queues of sources and release
  requests are left as they are, and no promise outside the two flushed queues and the
  pending detach request changes: the handles queued for sources and releases stay
  pending.
\<close>

theorem detached_flushes_frames_and_evaluate:
  assumes "field r ''type'' = JStr ''detached''"
  shows "fst (receiveResponse r s) = None \<and>
         pendingDetachRequest (snd (receiveResponse r s)) = None \<and>
         (\<forall>d. pendingDetachRequest s = Some d \<longrightarrow>
            logged (snd (receiveResponse r s))
              = logged s @ [(Debug, [Text (''Thread '' @ name s @ '' detached'')])] \<and>
            (d < length (promises s) \<and> promises s ! d = Pending \<longrightarrow>
               promises (snd (receiveResponse r s)) ! d = Resolved JUndefined)) \<and>
         (pendingDetachRequest s = None \<longrightarrow>
            logged (snd (receiveResponse r s))
              = logged s @
                  [(Debug, [Text (''Thread '' @ name s @ '' detached'')]),
                   (Warn, [Text (''Thread '' @ name s
                                  @ '' detached without a corresponding request'')])]) \<and>
         pendingStackFramesRequests (snd (receiveResponse r s)) = [] \<and>
         pendingEvaluateRequests (snd (receiveResponse r s)) = [] \<and>
         (\<forall>h \<in> set (pendingStackFramesRequests s) \<union> set (pendingEvaluateRequests s).
            h < length (promises s) \<and> promises s ! h = Pending
              \<and> pendingDetachRequest s \<noteq> Some h \<longrightarrow>
            promises (snd (receiveResponse r s)) ! h = Rejected (JStr ''Detached'')) \<and>
         pendingSourcesRequests (snd (receiveResponse r s)) = pendingSourcesRequests s \<and>
         pendingReleaseRequests (snd (receiveResponse r s)) = pendingReleaseRequests s \<and>
         length (promises (snd (receiveResponse r s))) = length (promises s) \<and>
         (\<forall>h. h \<notin> set (pendingStackFramesRequests s) \<union> set (pendingEvaluateRequests s)
              \<and> pendingDetachRequest s \<noteq> Some h \<longrightarrow>
            promises (snd (receiveResponse r s)) ! h = promises s ! h)"
proof -
  let ?rej = "\<lambda>h. settle h (Rejected (JStr ''Detached''))"
  let ?P = "case pendingDetachRequest s of
              Some d \<Rightarrow> settle d (Resolved JUndefined) (promises s)
            | None \<Rightarrow> promises s"
  let ?s' = "snd (receiveResponse r s)"
  have pr: "promises ?s' =
      fold ?rej (pendingEvaluateRequests s) (fold ?rej (pendingStackFramesRequests s) ?P)"
    by (simp add: receive_detached_eq [OF assms] split: option.splits)
  have resolved: "promises ?s' ! d = Resolved JUndefined"
    if "pendingDetachRequest s = Some d" "d < length (promises s)" "promises s ! d = Pending"
    for d
    using that by (simp add: pr fold_settle_nth_settled settle_nth_pending)
  have rejected: "promises ?s' ! h = Rejected (JStr ''Detached'')"
    if "h \<in> set (pendingStackFramesRequests s) \<union> set (pendingEvaluateRequests s)"
       "h < length (promises s)" "promises s ! h = Pending" "pendingDetachRequest s \<noteq> Some h"
    for h
  proof -
    from that(2,3,4) have P: "h < length ?P" "?P ! h = Pending"
      by (auto simp add: settle_nth_other split: option.splits)
    show ?thesis
    proof (cases "h \<in> set (pendingStackFramesRequests s)")
      case True
      with P have "fold ?rej (pendingStackFramesRequests s) ?P ! h = Rejected (JStr ''Detached'')"
        by (intro fold_settle_nth_pending) simp_all
      then show ?thesis by (simp add: pr fold_settle_nth_settled)
    next
      case False
      with that(1) have e: "h \<in> set (pendingEvaluateRequests s)" by simp
      from False P have "fold ?rej (pendingStackFramesRequests s) ?P ! h = Pending"
        by (simp add: fold_settle_nth_other)
      with e P(1) show ?thesis
        unfolding pr by (intro fold_settle_nth_pending) simp_all
    qed
  qed
  have untouched: "promises ?s' ! h = promises s ! h"
    if "h \<notin> set (pendingStackFramesRequests s) \<union> set (pendingEvaluateRequests s)"
       "pendingDetachRequest s \<noteq> Some h"
    for h
    using that by (auto simp add: pr fold_settle_nth_other settle_nth_other split: option.splits)
  have len: "length (promises ?s') = length (promises s)"
    by (simp add: pr split: option.splits)
  have rest: "fst (receiveResponse r s) = None"
    "pendingDetachRequest ?s' = None"
    "pendingStackFramesRequests ?s' = []" "pendingEvaluateRequests ?s' = []"
    "pendingSourcesRequests ?s' = pendingSourcesRequests s"
    "pendingReleaseRequests ?s' = pendingReleaseRequests s"
    by (simp_all add: receive_detached_eq [OF assms] split: option.splits)
  have logs: "pendingDetachRequest s = Some d \<Longrightarrow>
      logged ?s' = logged s @ [(Debug, [Text (''Thread '' @ name s @ '' detached'')])]"
    "pendingDetachRequest s = None \<Longrightarrow>
      logged ?s' = logged s @
        [(Debug, [Text (''Thread '' @ name s @ '' detached'')]),
         (Warn, [Text (''Thread '' @ name s @ '' detached without a corresponding request'')])]"
    for d
    by (simp_all add: receive_detached_eq [OF assms])
  from resolved rejected untouched len rest logs show ?thesis
    by blast
qed
theorem detached_flushes_frames_and_evaluate_witness:
  "field [(''from'', JStr ''tab1''), (''type'', JStr ''detached'')] ''type'' = JStr ''detached'' \<and>
   promises (run [FetchSources, FetchStackFrames 5, Evaluate ''x'' ''frame1'',
                  ReleaseMany [''grip1''], Detach] (ThreadActorProxy ''tab1'' Map.empty))
     = [Pending, Pending, Pending, Pending, Pending] \<and>
   pendingDetachRequest (run [FetchSources, FetchStackFrames 5, Evaluate ''x'' ''frame1'',
                  ReleaseMany [''grip1''], Detach] (ThreadActorProxy ''tab1'' Map.empty))
     = Some 4 \<and>
   pendingSourcesRequests (run [FetchSources, FetchStackFrames 5, Evaluate ''x'' ''frame1'',
                  ReleaseMany [''grip1''], Detach] (ThreadActorProxy ''tab1'' Map.empty))
     = [0] \<and>
   pendingStackFramesRequests (run [FetchSources, FetchStackFrames 5, Evaluate ''x'' ''frame1'',
                  ReleaseMany [''grip1''], Detach] (ThreadActorProxy ''tab1'' Map.empty))
     = [1] \<and>
   pendingEvaluateRequests (run [FetchSources, FetchStackFrames 5, Evaluate ''x'' ''frame1'',
                  ReleaseMany [''grip1''], Detach] (ThreadActorProxy ''tab1'' Map.empty))
     = [2] \<and>
   promises (snd (receiveResponse [(''from'', JStr ''tab1''), (''type'', JStr ''detached'')]
       (run [FetchSources, FetchStackFrames 5, Evaluate ''x'' ''frame1'',
             ReleaseMany [''grip1''], Detach] (ThreadActorProxy ''tab1'' Map.empty)))) ! 0
     = Pending \<and>
   promises (snd (receiveResponse [(''from'', JStr ''tab1''), (''type'', JStr ''detached'')]
       (run [FetchSources, FetchStackFrames 5, Evaluate ''x'' ''frame1'',
             ReleaseMany [''grip1''], Detach] (ThreadActorProxy ''tab1'' Map.empty)))) ! 1
     = Rejected (JStr ''Detached'') \<and>
   promises (snd (receiveResponse [(''from'', JStr ''tab1''), (''type'', JStr ''detached'')]
       (run [FetchSources, FetchStackFrames 5, Evaluate ''x'' ''frame1'',
             ReleaseMany [''grip1''], Detach] (ThreadActorProxy ''tab1'' Map.empty)))) ! 2
     = Rejected (JStr ''Detached'') \<and>
   promises (snd (receiveResponse [(''from'', JStr ''tab1''), (''type'', JStr ''detached'')]
       (run [FetchSources, FetchStackFrames 5, Evaluate ''x'' ''frame1'',
             ReleaseMany [''grip1''], Detach] (ThreadActorProxy ''tab1'' Map.empty)))) ! 4
     = Resolved JUndefined"
proof -
  let ?s = "run [FetchSources, FetchStackFrames 5, Evaluate ''x'' ''frame1'',
                 ReleaseMany [''grip1''], Detach] (ThreadActorProxy ''tab1'' Map.empty)"
  let ?r = "[(''from'', JStr ''tab1''), (''type'', JStr ''detached'')]"
  have t: "field ?r ''type'' = JStr ''detached''"
    by (simp add: field_def)
  have p: "promises ?s = [Pending, Pending, Pending, Pending, Pending]"
    and d: "pendingDetachRequest ?s = Some 4"
    and q: "pendingSourcesRequests ?s = [0]" "pendingStackFramesRequests ?s = [1]"
           "pendingEvaluateRequests ?s = [2]"
    by (simp_all add: ThreadActorProxy_def register_def fetchSources_def fetchStackFrames_def
          evaluate_def releaseMany_def detach_def enqueue_def prim_defs Let_def)
  have m: "1 \<in> set (pendingStackFramesRequests ?s) \<union> set (pendingEvaluateRequests ?s)"
          "2 \<in> set (pendingStackFramesRequests ?s) \<union> set (pendingEvaluateRequests ?s)"
          "0 \<notin> set (pendingStackFramesRequests ?s) \<union> set (pendingEvaluateRequests ?s)"
    using q by simp_all
  have c: "1 < length (promises ?s) \<and> promises ?s ! 1 = Pending \<and> pendingDetachRequest ?s \<noteq> Some 1"
          "2 < length (promises ?s) \<and> promises ?s ! 2 = Pending \<and> pendingDetachRequest ?s \<noteq> Some 2"
          "4 < length (promises ?s) \<and> promises ?s ! 4 = Pending"
          "pendingDetachRequest ?s \<noteq> Some 0" "promises ?s ! 0 = Pending"
    using p d by simp_all
  from detached_flushes_frames_and_evaluate [OF t, of ?s] m c d
  have "promises (snd (receiveResponse ?r ?s)) ! 0 = Pending \<and>
        promises (snd (receiveResponse ?r ?s)) ! 1 = Rejected (JStr ''Detached'') \<and>
        promises (snd (receiveResponse ?r ?s)) ! 2 = Rejected (JStr ''Detached'') \<and>
        promises (snd (receiveResponse ?r ?s)) ! 4 = Resolved JUndefined"
    by (metis (no_types, lifting))
  with t p d q show ?thesis by blast
qed

subsection \<open>Evaluate\<close>

lemma replace_all_Cons:
  "replace_all c rep (x # xs) = (if x = c then rep else [x]) @ replace_all c rep xs"
  by (simp add: replace_all_def)

lemma replace_all_Nil: "replace_all c rep [] = []"
  by (simp add: replace_all_def)

lemma replace_all_append:
  "replace_all c rep (xs @ ys) = replace_all c rep xs @ replace_all c rep ys"
  by (simp add: replace_all_def)

lemma escapedExpression_eq:
  "escapedExpression expr =
     concat (map (\<lambda>c. if c = backslash \<or> c = dquote then [backslash, c] else [c]) expr)"
proof (induction expr)
  case Nil
  show ?case by (simp add: escapedExpression_def replace_all_Nil)
next
  case (Cons x xs)
  have ne: "backslash \<noteq> dquote"
    by (simp add: backslash_def dquote_def)
  from Cons show ?case
    using ne
    by (simp add: escapedExpression_def replace_all_Cons replace_all_append replace_all_Nil)
qed

text \<open>
  C7. \<open>evaluate(expr, frame)\<close> sends one \<open>clientEvaluate\<close> message for the given frame
  whose expression is the text
  \<open>eval("try{\<close>\<^emph>\<open>E\<close>\<open>}catch(e){e.name+':'+e.message}")\<close>, where \<^emph>\<open>E\<close> is \<open>expr\<close> with a
  backslash put before every backslash and every double quote and nothing else
  changed; the returned handle is pending and queued last for evaluations. When that
  handle is the oldest queued one, a \<open>paused\<close> message with reason \<open>clientEvaluated\<close>
  whose \<open>frameFinished.return\<close> is \<open>v\<close> (such as the text the remote \<open>catch\<close> produces)
  resolves the handle with \<open>v\<close>; it is not rejected. What the remote side evaluates is
  outside this model.
\<close>

theorem evaluate_escapes_and_wraps:
  "sent (snd (evaluate expr frameActorName s))
     = sent s @
       [JObj [(''to'', JStr (name s)), (''type'', JStr ''clientEvaluate''),
              (''expression'',
               JStr (''eval('' @ [dquote] @ ''try{''
                     @ concat (map (\<lambda>c. if c = backslash \<or> c = dquote
                                          then [backslash, c] else [c]) expr)
                     @ ''}catch(e){e.name+'' @ [CHR 0x27] @ '':'' @ [CHR 0x27]
                     @ ''+e.message}'' @ [dquote] @ '')'')),
              (''frame'', JStr frameActorName)]] \<and>
   pendingEvaluateRequests (snd (evaluate expr frameActorName s))
     = pendingEvaluateRequests s @ [fst (evaluate expr frameActorName s)] \<and>
   fst (evaluate expr frameActorName s) = length (promises s) \<and>
   promises (snd (evaluate expr frameActorName s)) = promises s @ [Pending] \<and>
   (\<forall>r frameFinished v.
      pendingEvaluateRequests s = [] \<and>
      field r ''type'' = JStr ''paused'' \<and>
      js_get (field r ''why'') ''type'' = Inr (JStr ''clientEvaluated'') \<and>
      js_get (field r ''why'') ''frameFinished'' = Inr frameFinished \<and>
      js_get frameFinished ''return'' = Inr v \<longrightarrow>
      fst (receiveResponse r (snd (evaluate expr frameActorName s))) = None \<and>
      promises (snd (receiveResponse r (snd (evaluate expr frameActorName s))))
          ! fst (evaluate expr frameActorName s) = Resolved v \<and>
      pendingEvaluateRequests (snd (receiveResponse r (snd (evaluate expr frameActorName s))))
        = [])"
proof -
  let ?e = "evaluate expr frameActorName s"
  have ev: "?e = (length (promises s),
      s\<lparr>logged := logged s @ [(Debug, [Text (''Evaluating '' @ [CHR 0x27] @ expr @ [CHR 0x27]
                            @ '' on thread '' @ name s)])],
        promises := promises s @ [Pending],
        pendingEvaluateRequests := pendingEvaluateRequests s @ [length (promises s)],
        sent := sent s @ [JObj [(''to'', JStr (name s)), (''type'', JStr ''clientEvaluate''),
                (''expression'', JStr (tryExpression expr)),
                (''frame'', JStr frameActorName)]]\<rparr>)"
    by (simp add: evaluate_def enqueue_def prim_defs Let_def)
  have a: "fst (receiveResponse r (snd ?e)) = None \<and>
           promises (snd (receiveResponse r (snd ?e))) ! fst ?e = Resolved v \<and>
           pendingEvaluateRequests (snd (receiveResponse r (snd ?e))) = []"
    if "pendingEvaluateRequests s = []" "field r ''type'' = JStr ''paused''"
       "js_get (field r ''why'') ''type'' = Inr (JStr ''clientEvaluated'')"
       "js_get (field r ''why'') ''frameFinished'' = Inr frameFinished"
       "js_get frameFinished ''return'' = Inr v"
    for r frameFinished v
    using that
    by (simp add: ev receiveResponse_def receivePaused_def resolveOne_def prim_defs Let_def
          settle_def nth_append)
  have te: "tryExpression expr = ''eval('' @ [dquote] @ ''try{''
                     @ concat (map (\<lambda>c. if c = backslash \<or> c = dquote
                                          then [backslash, c] else [c]) expr)
                     @ ''}catch(e){e.name+'' @ [CHR 0x27] @ '':'' @ [CHR 0x27]
                     @ ''+e.message}'' @ [dquote] @ '')''"
    unfolding tryExpression_def escapedExpression_eq ..
  have "sent (snd ?e) = sent s @
       [JObj [(''to'', JStr (name s)), (''type'', JStr ''clientEvaluate''),
              (''expression'', JStr (tryExpression expr)),
              (''frame'', JStr frameActorName)]]"
    by (simp add: ev)
  then have c1: "sent (snd ?e) = sent s @
       [JObj [(''to'', JStr (name s)), (''type'', JStr ''clientEvaluate''),
              (''expression'',
               JStr (''eval('' @ [dquote] @ ''try{''
                     @ concat (map (\<lambda>c. if c = backslash \<or> c = dquote
                                          then [backslash, c] else [c]) expr)
                     @ ''}catch(e){e.name+'' @ [CHR 0x27] @ '':'' @ [CHR 0x27]
                     @ ''+e.message}'' @ [dquote] @ '')'')),
              (''frame'', JStr frameActorName)]]"
    unfolding te .
  have c2: "pendingEvaluateRequests (snd ?e) = pendingEvaluateRequests s @ [fst ?e]"
    and c3: "fst ?e = length (promises s)"
    and c4: "promises (snd ?e) = promises s @ [Pending]"
    by (simp_all add: ev)
  from c1 c2 c3 c4 a show ?thesis
    by blast
qed
theorem evaluate_escapes_and_wraps_witness:
  "sent (snd (evaluate (''say '' @ [dquote] @ ''hi'' @ [dquote]) ''frame1''
                (ThreadActorProxy ''tab1'' Map.empty)))
     = [JObj [(''to'', JStr ''tab1''), (''type'', JStr ''clientEvaluate''),
              (''expression'',
               JStr (''eval('' @ [dquote] @ ''try{say '' @ [backslash, dquote] @ ''hi''
                     @ [backslash, dquote]
                     @ ''}catch(e){e.name+'' @ [CHR 0x27] @ '':'' @ [CHR 0x27]
                     @ ''+e.message}'' @ [dquote] @ '')'')),
              (''frame'', JStr ''frame1'')]] \<and>
   pendingEvaluateRequests (ThreadActorProxy ''tab1'' Map.empty) = [] \<and>
   field [(''type'', JStr ''paused''),
          (''why'', JObj [(''type'', JStr ''clientEvaluated''),
                          (''frameFinished'', JObj [(''return'', JStr ''Error:message'')])])]
         ''type'' = JStr ''paused'' \<and>
   promises (snd (receiveResponse
       [(''type'', JStr ''paused''),
        (''why'', JObj [(''type'', JStr ''clientEvaluated''),
                        (''frameFinished'', JObj [(''return'', JStr ''Error:message'')])])]
       (snd (evaluate (''say '' @ [dquote] @ ''hi'' @ [dquote]) ''frame1''
                (ThreadActorProxy ''tab1'' Map.empty))))) ! 0
     = Resolved (JStr ''Error:message'')"
proof -
  let ?s = "ThreadActorProxy ''tab1'' Map.empty"
  let ?x = "''say '' @ [dquote] @ ''hi'' @ [dquote]"
  let ?ff = "JObj [(''return'', JStr ''Error:message'')]"
  let ?r = "[(''type'', JStr ''paused''),
             (''why'', JObj [(''type'', JStr ''clientEvaluated''), (''frameFinished'', ?ff)])]"
  note th = evaluate_escapes_and_wraps [of ?x "''frame1''" ?s]
  have q: "pendingEvaluateRequests ?s = []"
    by (simp add: ThreadActorProxy_def register_def log_debug_def)
  have t: "field ?r ''type'' = JStr ''paused''"
    and w: "js_get (field ?r ''why'') ''type'' = Inr (JStr ''clientEvaluated'')"
    and f: "js_get (field ?r ''why'') ''frameFinished'' = Inr ?ff"
    and v: "js_get ?ff ''return'' = Inr (JStr ''Error:message'')"
    by (simp_all add: field_def)
  from th have h: "fst (evaluate ?x ''frame1'' ?s) = 0"
    by (simp add: ThreadActorProxy_slots)
  from th q t w f v
  have "promises (snd (receiveResponse ?r (snd (evaluate ?x ''frame1'' ?s))))
          ! fst (evaluate ?x ''frame1'' ?s) = Resolved (JStr ''Error:message'')"
    by blast
  with h have a: "promises (snd (receiveResponse ?r (snd (evaluate ?x ''frame1'' ?s)))) ! 0
                    = Resolved (JStr ''Error:message'')"
    by simp
  have ne: "CHR ''s'' \<noteq> backslash" "CHR ''a'' \<noteq> backslash" "CHR ''y'' \<noteq> backslash"
    "CHR '' '' \<noteq> backslash" "CHR ''h'' \<noteq> backslash" "CHR ''i'' \<noteq> backslash"
    "CHR ''s'' \<noteq> dquote" "CHR ''a'' \<noteq> dquote" "CHR ''y'' \<noteq> dquote"
    "CHR '' '' \<noteq> dquote" "CHR ''h'' \<noteq> dquote" "CHR ''i'' \<noteq> dquote"
    by (simp_all add: backslash_def dquote_def)
  from th have "sent (snd (evaluate ?x ''frame1'' ?s))
     = [JObj [(''to'', JStr ''tab1''), (''type'', JStr ''clientEvaluate''),
              (''expression'',
               JStr (''eval('' @ [dquote] @ ''try{say '' @ [backslash, dquote] @ ''hi''
                     @ [backslash, dquote]
                     @ ''}catch(e){e.name+'' @ [CHR 0x27] @ '':'' @ [CHR 0x27]
                     @ ''+e.message}'' @ [dquote] @ '')'')),
              (''frame'', JStr ''frame1'')]]"
    by (simp add: ThreadActorProxy_slots ne)
  with a q t show ?thesis by blast
qed

subsection \<open>FIFO correlation of data replies\<close>

lemma count_list_slot [simp]: "count_list (slot x) h = (if x = Some h then 1 else 0)"
  by (simp add: slot_def split: option.splits)

lemma distinct_count_list: "distinct xs \<longleftrightarrow> (\<forall>x. count_list xs x \<le> 1)"
proof (induction xs)
  case Nil
  show ?case by simp
next
  case (Cons a xs)
  show ?case
  proof
    assume d: "distinct (a # xs)"
    then have "count_list xs a = 0" by simp
    with d Cons show "\<forall>x. count_list (a # xs) x \<le> 1" by auto
  next
    assume c: "\<forall>x. count_list (a # xs) x \<le> 1"
    then have "count_list (a # xs) a \<le> 1" by blast
    then have "a \<notin> set xs" by (simp add: count_list_0_iff)
    moreover have "\<forall>x. count_list xs x \<le> 1"
    proof
      fix x from c have "count_list (a # xs) x \<le> 1" by blast
      then show "count_list xs x \<le> 1" by (simp split: if_splits)
    qed
    ultimately show "distinct (a # xs)" using Cons by simp
  qed
qed

lemma wellformed_iff: "wellformed s \<longleftrightarrow> (\<forall>h. handle_ok s h)"
proof -
  have "(0 < count_list xs h) = (h \<in> set xs)" for xs :: "handle list" and h
    using count_list_0_iff [of xs h] by auto
  then show ?thesis
    by (auto simp add: wellformed_def handle_ok_def list_all_iff distinct_count_list)
qed

lemma handle_ok_fresh:
  assumes "handle_ok s h"
    and "promises s' = promises s @ [Pending]"
    and "count_list (waiting s') h
           \<le> count_list (waiting s) h + (if h = length (promises s) then 1 else 0)"
  shows "handle_ok s' h"
  using assms by (auto simp add: handle_ok_def nth_append split: if_splits)

lemma handle_ok_same:
  assumes "handle_ok s h"
    and "promises s' = promises s \<or> promises s' = promises s @ [c]"
    and "count_list (waiting s') h \<le> count_list (waiting s) h"
  shows "handle_ok s' h"
  using assms by (auto simp add: handle_ok_def nth_append)

lemma handle_ok_settle:
  assumes "handle_ok s h"
    and "promises s' = settle h1 p (promises s) \<or> promises s' = settle h1 p (promises s @ [c])"
    and "count_list (waiting s') h + (if h = h1 then 1 else 0) \<le> count_list (waiting s) h"
  shows "handle_ok s' h"
  using assms
  by (cases "h = h1") (auto simp add: handle_ok_def nth_append settle_nth_other)

lemma handle_ok_attach: "handle_ok s h \<Longrightarrow> handle_ok (snd (attach s)) h"
proof (cases "attachPromise s")
  case None
  assume "handle_ok s h"
  then show ?thesis
    by (rule handle_ok_fresh) (simp_all add: None attach_def waiting_def prim_defs Let_def)
next
  case (Some a)
  assume "handle_ok s h"
  then show ?thesis
    by (rule handle_ok_same [where c = Pending])
       (simp_all add: Some attach_def waiting_def prim_defs Let_def)
qed

lemma handle_ok_resume: "handle_ok s h \<Longrightarrow> handle_ok (snd (resume e l s)) h"
proof (cases "resumePromise s")
  case None
  assume "handle_ok s h"
  then show ?thesis
    by (rule handle_ok_fresh) (simp_all add: None resume_def waiting_def prim_defs Let_def)
next
  case (Some a)
  assume "handle_ok s h"
  then show ?thesis
    by (rule handle_ok_same [where c = Pending])
       (simp_all add: Some resume_def waiting_def prim_defs Let_def)
qed

lemma handle_ok_interrupt: "handle_ok s h \<Longrightarrow> handle_ok (snd (interrupt s)) h"
proof (cases "interruptPromise s")
  case None
  assume "handle_ok s h"
  then show ?thesis
    by (rule handle_ok_fresh) (simp_all add: None interrupt_def waiting_def prim_defs Let_def)
next
  case (Some a)
  assume "handle_ok s h"
  then show ?thesis
    by (rule handle_ok_same [where c = Pending])
       (simp_all add: Some interrupt_def waiting_def prim_defs Let_def)
qed

lemma handle_ok_detach: "handle_ok s h \<Longrightarrow> handle_ok (snd (detach s)) h"
proof (cases "detachPromise s")
  case None
  assume "handle_ok s h"
  then show ?thesis
    by (rule handle_ok_fresh) (simp_all add: None detach_def waiting_def prim_defs Let_def)
next
  case (Some a)
  assume "handle_ok s h"
  then show ?thesis
    by (rule handle_ok_same [where c = Pending])
       (simp_all add: Some detach_def waiting_def prim_defs Let_def)
qed

lemma handle_ok_fetch:
  assumes "handle_ok s h"
  shows "handle_ok (snd (fetchSources s)) h"
    and "handle_ok (snd (fetchStackFrames n s)) h"
    and "handle_ok (snd (evaluate e f s)) h"
    and "handle_ok (snd (releaseMany ns s)) h"
  by (rule handle_ok_fresh [OF assms];
      simp add: fetchSources_def fetchStackFrames_def evaluate_def releaseMany_def
        enqueue_def waiting_def prim_defs Let_def)+

lemma handle_ok_step:
  assumes "handle_ok s h"
    and "length (promises s) \<le> length (promises s')"
    and "count_list (waiting s') h \<le> count_list (waiting s) h"
    and "\<lbrakk>0 < count_list (waiting s') h; count_list (waiting s) h \<le> 1;
          h < length (promises s)\<rbrakk> \<Longrightarrow> promises s' ! h = promises s ! h"
  shows "handle_ok s' h"
  using assms by (auto simp add: handle_ok_def)

lemmas receive_simps = resolveOne_def prim_defs Let_def split_beta waiting_def nth_append
  settle_nth_other

lemma handle_ok_receivePaused:
  assumes "handle_ok s h"
  shows "handle_ok (snd (receivePaused r s)) h"
proof (cases "js_get (field r ''why'') ''type''")
  case (Inl e)
  with assms show ?thesis by (simp add: receivePaused_def)
next
  case (Inr ty)
  note ty = this
  show ?thesis
  proof (cases "ToString_throws ty")
    case True
    with assms ty show ?thesis by (simp add: receivePaused_def)
  next
    case False
    note nt = this
    consider (attached) "ty = JStr ''attached''"
      | (interrupted) "ty = JStr ''interrupted''"
      | (stopped) "ty = JStr ''resumeLimit'' \<or> ty = JStr ''breakpoint'' \<or> ty = JStr ''exception''"
      | (evaluated) "ty = JStr ''clientEvaluated''"
      | (other) "ty \<noteq> JStr ''attached''" "ty \<noteq> JStr ''interrupted''"
          "ty \<noteq> JStr ''resumeLimit''" "ty \<noteq> JStr ''breakpoint''" "ty \<noteq> JStr ''exception''"
          "ty \<noteq> JStr ''clientEvaluated''"
      by blast
    then show ?thesis
    proof cases
      case attached
      show ?thesis
      proof (cases "pendingAttachRequest s")
        case None
        show ?thesis
          by (rule handle_ok_step [OF assms];
              simp add: receivePaused_def ty nt attached None receive_simps)
      next
        case (Some a)
        show ?thesis
          by (rule handle_ok_step [OF assms]; cases "h = a";
              simp add: receivePaused_def ty nt attached Some receive_simps)
      qed
    next
      case interrupted
      show ?thesis
      proof (cases "pendingInterruptRequest s")
        case None
        show ?thesis
          by (rule handle_ok_step [OF assms];
              simp add: receivePaused_def ty nt interrupted None receive_simps)
      next
        case (Some a)
        show ?thesis
          by (rule handle_ok_step [OF assms]; cases "h = a";
              simp add: receivePaused_def ty nt interrupted Some receive_simps)
      qed
    next
      case stopped
      have eq: "snd (receivePaused r s) =
         s\<lparr>logged := logged s @ [(Debug, [Text ''Received paused message of type '', Shown ty])],
           promises := promises s @ [Resolved JUndefined],
           interruptPromise := Some (length (promises s)),
           resumePromise := None, pendingInterruptRequest := None,
           pendingResumeRequest := None,
           emitted := emitted s @ [PausedEvent (field r ''why'')]\<rparr>"
        using stopped by (auto simp add: receivePaused_def ty nt prim_defs Let_def)
      show ?thesis
        unfolding eq by (rule handle_ok_step [OF assms]; simp add: receive_simps)
    next
      case evaluated
      show ?thesis
      proof (cases "js_get (field r ''why'') ''frameFinished''")
        case (Inl e)
        show ?thesis
          by (rule handle_ok_step [OF assms];
              simp add: receivePaused_def ty nt evaluated Inl receive_simps)
      next
        case (Inr ff)
        note ff = this
        show ?thesis
        proof (cases "js_get ff ''return''")
          case (Inl e)
          show ?thesis
            by (rule handle_ok_step [OF assms];
                simp add: receivePaused_def ty nt evaluated ff Inl receive_simps)
        next
          case (Inr v)
          note v = this
          show ?thesis
          proof (cases "pendingEvaluateRequests s")
            case Nil
            show ?thesis
              by (rule handle_ok_step [OF assms];
                  simp add: receivePaused_def ty nt evaluated ff v Nil receive_simps)
          next
            case (Cons a q)
            show ?thesis
              by (rule handle_ok_step [OF assms]; cases "h = a";
                  simp add: receivePaused_def ty nt evaluated ff v Cons receive_simps)
          qed
        qed
      qed
    next
      case other
      show ?thesis
        by (rule handle_ok_step [OF assms];
            simp add: receivePaused_def ty nt other receive_simps)
    qed
  qed
qed

lemma truthy_js_get: "truthy v \<Longrightarrow> \<exists>n. js_get v k = Inr n"
  by (cases v) simp_all

lemma handle_ok_detached:
  assumes "handle_ok s h" and "field r ''type'' = JStr ''detached''"
  shows "handle_ok (snd (receiveResponse r s)) h"
proof -
  let ?rej = "\<lambda>h. settle h (Rejected (JStr ''Detached''))"
  have np: "field r ''type'' \<noteq> JStr ''paused''" "field r ''type'' \<noteq> JStr ''resumed''"
    using assms(2) by simp_all
  have off: "count_list xs h = 0 \<Longrightarrow> h \<notin> set xs" for xs :: "handle list"
    by (simp add: count_list_0_iff)
  show ?thesis
  proof (cases "pendingDetachRequest s")
    case None
    show ?thesis
    proof (rule handle_ok_step [OF assms(1)])
      show "length (promises s) \<le> length (promises (snd (receiveResponse r s)))"
        by (simp add: receiveResponse_def np assms(2) None rejectAll_def rejectEach_eq
              prim_defs Let_def)
      show "count_list (waiting (snd (receiveResponse r s))) h \<le> count_list (waiting s) h"
        by (simp add: receiveResponse_def np assms(2) None rejectAll_def rejectEach_eq
              prim_defs Let_def waiting_def)
      assume "0 < count_list (waiting (snd (receiveResponse r s))) h"
        and "count_list (waiting s) h \<le> 1"
      then have "count_list (pendingStackFramesRequests s) h = 0"
        and "count_list (pendingEvaluateRequests s) h = 0"
        by (auto simp add: receiveResponse_def np assms(2) None rejectAll_def rejectEach_eq
              prim_defs Let_def waiting_def split: if_splits)
      then have "h \<notin> set (pendingStackFramesRequests s)" "h \<notin> set (pendingEvaluateRequests s)"
        by (simp_all add: off)
      then show "promises (snd (receiveResponse r s)) ! h = promises s ! h"
        by (simp add: receiveResponse_def np assms(2) None rejectAll_def rejectEach_eq
              prim_defs Let_def fold_settle_nth_other)
    qed
  next
    case (Some d)
    show ?thesis
    proof (rule handle_ok_step [OF assms(1)])
      show "length (promises s) \<le> length (promises (snd (receiveResponse r s)))"
        by (simp add: receiveResponse_def np assms(2) Some rejectAll_def rejectEach_eq
              prim_defs Let_def)
      show "count_list (waiting (snd (receiveResponse r s))) h \<le> count_list (waiting s) h"
        by (simp add: receiveResponse_def np assms(2) Some rejectAll_def rejectEach_eq
              prim_defs Let_def waiting_def)
      assume "0 < count_list (waiting (snd (receiveResponse r s))) h"
        and "count_list (waiting s) h \<le> 1"
      then have "count_list (pendingStackFramesRequests s) h = 0"
        and "count_list (pendingEvaluateRequests s) h = 0" and "h \<noteq> d"
        by (auto simp add: receiveResponse_def np assms(2) Some rejectAll_def rejectEach_eq
              prim_defs Let_def waiting_def split: if_splits)
      then have "h \<notin> set (pendingStackFramesRequests s)" "h \<notin> set (pendingEvaluateRequests s)"
        "h \<noteq> d"
        by (simp_all add: off)
      then show "promises (snd (receiveResponse r s)) ! h = promises s ! h"
        by (simp add: receiveResponse_def np assms(2) Some rejectAll_def rejectEach_eq
              prim_defs Let_def fold_settle_nth_other settle_nth_other)
    qed
  qed
qed

lemma handle_ok_receiveResponse:
  assumes "handle_ok s h"
  shows "handle_ok (snd (receiveResponse r s)) h"
proof -
  consider (paused) "field r ''type'' = JStr ''paused''"
    | (resumed) "field r ''type'' = JStr ''resumed''"
    | (detached) "field r ''type'' = JStr ''detached''"
    | (rest) "field r ''type'' \<noteq> JStr ''paused''" "field r ''type'' \<noteq> JStr ''resumed''"
        "field r ''type'' \<noteq> JStr ''detached''"
    by blast
  then show ?thesis
  proof cases
    case paused
    with assms show ?thesis
      by (simp add: receiveResponse_def handle_ok_receivePaused)
  next
    case resumed
    then have np: "field r ''type'' \<noteq> JStr ''paused''" by simp
    show ?thesis
    proof (cases "pendingResumeRequest s")
      case None
      show ?thesis
        by (rule handle_ok_step [OF assms];
            simp add: receiveResponse_def np resumed None receive_simps)
    next
      case (Some a)
      show ?thesis
        by (rule handle_ok_step [OF assms]; cases "h = a";
            simp add: receiveResponse_def np resumed Some receive_simps)
    qed
  next
    case detached
    with assms show ?thesis by (rule handle_ok_detached)
  next
    case rest
    note rest = this
    show ?thesis
    proof (cases "truthy (field r ''sources'')")
      case True
      note src = this
      from truthy_js_get [OF True] obtain n
        where n: "js_get (field r ''sources'') ''length'' = Inr n" by blast
      show ?thesis
      proof (cases "ToString_throws n")
        case True
        with assms show ?thesis
          by (simp add: receiveResponse_def rest src n)
      next
        case False
        show ?thesis
        proof (cases "pendingSourcesRequests s")
          case Nil
          show ?thesis
            by (rule handle_ok_step [OF assms];
                simp add: receiveResponse_def rest src n False Nil receive_simps)
        next
          case (Cons a q)
          show ?thesis
            by (rule handle_ok_step [OF assms]; cases "h = a";
                simp add: receiveResponse_def rest src n False Cons receive_simps)
        qed
      qed
    next
      case False
      note nsrc = this
      show ?thesis
      proof (cases "field r ''type'' = JStr ''newSource''")
        case True
        note ns = this
        show ?thesis
        proof (cases "js_get (field r ''source'') ''url''")
          case (Inl e)
          with assms show ?thesis
            by (simp add: receiveResponse_def rest nsrc ns)
        next
          case (Inr url)
          note url = this
          show ?thesis
          proof (cases "ToString_throws url")
            case True
            with assms show ?thesis
              by (simp add: receiveResponse_def rest nsrc ns url)
          next
            case False
            show ?thesis
              by (rule handle_ok_step [OF assms];
                  simp add: receiveResponse_def rest nsrc ns url False getOrCreate_def
                    receive_simps split: sum.splits option.splits)
          qed
        qed
      next
        case False
        note nns = this
        show ?thesis
        proof (cases "truthy (field r ''frames'')")
          case True
          note fr = this
          from truthy_js_get [OF True] obtain n
            where n: "js_get (field r ''frames'') ''length'' = Inr n" by blast
          show ?thesis
          proof (cases "ToString_throws n")
            case True
            with assms show ?thesis
              by (simp add: receiveResponse_def rest nsrc nns fr n)
          next
            case False
            show ?thesis
            proof (cases "pendingStackFramesRequests s")
              case Nil
              show ?thesis
                by (rule handle_ok_step [OF assms];
                    simp add: receiveResponse_def rest nsrc nns fr n False Nil receive_simps)
            next
              case (Cons a q)
              show ?thesis
                by (rule handle_ok_step [OF assms]; cases "h = a";
                    simp add: receiveResponse_def rest nsrc nns fr n False Cons receive_simps)
            qed
          qed
        next
          case False
          note nfr = this
          consider (exited) "field r ''type'' = JStr ''exited''"
            | (wrongState) "field r ''type'' \<noteq> JStr ''exited''"
                "field r ''error'' = JStr ''wrongState''"
            | (ack) "field r ''type'' \<noteq> JStr ''exited''"
                "field r ''error'' \<noteq> JStr ''wrongState''" "length (js_keys r) = Suc 0"
            | (unknown) "field r ''type'' \<noteq> JStr ''exited''"
                "field r ''error'' \<noteq> JStr ''wrongState''" "length (js_keys r) \<noteq> Suc 0"
            by blast
          then show ?thesis
          proof cases
            case exited
            show ?thesis
              by (rule handle_ok_step [OF assms];
                  simp add: receiveResponse_def rest nsrc nns nfr exited receive_simps)
          next
            case wrongState
            show ?thesis
              by (rule handle_ok_step [OF assms];
                  simp add: receiveResponse_def rest nsrc nns nfr wrongState receive_simps)
          next
            case ack
            show ?thesis
            proof (cases "pendingReleaseRequests s")
              case Nil
              show ?thesis
                by (rule handle_ok_step [OF assms];
                    simp add: receiveResponse_def rest nsrc nns nfr ack Nil receive_simps)
            next
              case (Cons a q)
              show ?thesis
                by (rule handle_ok_step [OF assms]; cases "h = a";
                    simp add: receiveResponse_def rest nsrc nns nfr ack Cons receive_simps)
            qed
          next
            case unknown
            show ?thesis
              by (rule handle_ok_step [OF assms];
                  simp add: receiveResponse_def rest nsrc nns nfr unknown receive_simps)
          qed
        qed
      qed
    qed
  qed
qed

lemma handle_ok_step_action: "handle_ok s h \<Longrightarrow> handle_ok (step a s) h"
  by (cases a)
     (simp_all add: handle_ok_attach handle_ok_resume handle_ok_interrupt handle_ok_detach
        handle_ok_fetch handle_ok_receiveResponse)

lemma wellformed_step: "wellformed s \<Longrightarrow> wellformed (step a s)"
  by (simp add: wellformed_iff handle_ok_step_action)

lemma wellformed_run: "wellformed s \<Longrightarrow> wellformed (run acts s)"
  by (induction acts arbitrary: s) (simp_all add: wellformed_step)

lemma wellformed_ThreadActorProxy: "wellformed (ThreadActorProxy nm c)"
  by (simp add: wellformed_def waiting_def slot_def ThreadActorProxy_def register_def
        log_debug_def)


lemma resolveOne_fst [simp]: "fst (resolveOne q v s) = tl q"
  by (simp add: resolveOne_def split: list.splits)

lemma resolveOne_queues [simp]:
  "pendingSourcesRequests (snd (resolveOne q v s)) = pendingSourcesRequests s"
  "pendingStackFramesRequests (snd (resolveOne q v s)) = pendingStackFramesRequests s"
  "pendingEvaluateRequests (snd (resolveOne q v s)) = pendingEvaluateRequests s"
  "pendingReleaseRequests (snd (resolveOne q v s)) = pendingReleaseRequests s"
  by (simp_all add: resolveOne_def prim_defs split: list.splits)

lemma getOrCreate_queues [simp]:
  "pendingSourcesRequests (snd (getOrCreate a f s)) = pendingSourcesRequests s"
  "pendingStackFramesRequests (snd (getOrCreate a f s)) = pendingStackFramesRequests s"
  "pendingEvaluateRequests (snd (getOrCreate a f s)) = pendingEvaluateRequests s"
  "pendingReleaseRequests (snd (getOrCreate a f s)) = pendingReleaseRequests s"
  "promises (snd (getOrCreate a f s)) = promises s"
  by (simp_all add: getOrCreate_def split: option.splits)

lemma resolveOne_promises:
  "promises (snd (resolveOne q v s)) =
     (case q of [] \<Rightarrow> promises s | h # q' \<Rightarrow> settle h (Resolved v) (promises s))"
  by (simp add: resolveOne_def prim_defs split: list.splits)

lemma resolveOne_length [simp]:
  "length (promises (snd (resolveOne q v s))) = length (promises s)"
  by (simp add: resolveOne_promises split: list.splits)

lemma resolveOne_settled [simp]:
  "promises s ! h \<noteq> Pending \<Longrightarrow> promises (snd (resolveOne q v s)) ! h = promises s ! h"
  by (simp add: resolveOne_promises settle_nth_settled split: list.splits)

lemma receivePaused_length:
  "length (promises s) \<le> length (promises (snd (receivePaused r s)))"
  by (simp add: receivePaused_def prim_defs Let_def split_beta
      split: sum.splits option.splits)

lemma receiveResponse_length:
  "length (promises s) \<le> length (promises (snd (receiveResponse r s)))"
  by (simp add: receiveResponse_def receivePaused_length rejectAll_def rejectEach_eq
        prim_defs Let_def split_beta
      split: sum.splits option.splits)

lemma receivePaused_settled:
  assumes "h < length (promises s)" and "promises s ! h \<noteq> Pending"
  shows "promises (snd (receivePaused r s)) ! h = promises s ! h"
  using assms
  by (simp add: receivePaused_def prim_defs Let_def split_beta nth_append
        settle_nth_settled split: sum.splits option.splits)

lemma receiveResponse_settled:
  assumes "h < length (promises s)" and "promises s ! h \<noteq> Pending"
  shows "promises (snd (receiveResponse r s)) ! h = promises s ! h"
  using assms
  by (simp add: receiveResponse_def receivePaused_settled rejectAll_def rejectEach_eq
        prim_defs Let_def split_beta nth_append settle_nth_settled fold_settle_nth_settled
      split: sum.splits option.splits)

lemma receivePaused_queue:
  assumes "field r ''type'' = JStr ''paused''"
  shows "queue k (snd (receivePaused r s)) =
     (case data_reply r of
        None \<Rightarrow> queue k s
      | Some (k', v) \<Rightarrow> if k' = k then tl (queue k s) else queue k s)"
  using assms
  by (cases k)
     (simp_all add: receivePaused_def data_reply_def prim_defs Let_def split_beta
      split: sum.splits option.splits)

lemma receiveResponse_queue:
  assumes "field r ''type'' \<noteq> JStr ''detached''"
  shows "queue k (snd (receiveResponse r s)) =
     (case data_reply r of
        None \<Rightarrow> queue k s
      | Some (k', v) \<Rightarrow> if k' = k then tl (queue k s) else queue k s)"
proof (cases "field r ''type'' = JStr ''paused''")
  case True
  then show ?thesis
    by (simp add: receiveResponse_def receivePaused_queue)
next
  case False
  with assms show ?thesis
    by (cases k)
       (simp_all add: receiveResponse_def data_reply_def prim_defs Let_def split_beta
        split: sum.splits option.splits)
qed

lemma data_reply_cases:
  assumes "data_reply r = Some (k, v)"
  obtains
    (evaluated) frameFinished where "k = EvaluateKind" "field r ''type'' = JStr ''paused''"
      "js_get (field r ''why'') ''type'' = Inr (JStr ''clientEvaluated'')"
      "js_get (field r ''why'') ''frameFinished'' = Inr frameFinished"
      "js_get frameFinished ''return'' = Inr v"
  | (sources) n where "k = SourcesKind" "field r ''type'' \<noteq> JStr ''paused''"
      "field r ''type'' \<noteq> JStr ''resumed''" "field r ''type'' \<noteq> JStr ''detached''"
      "truthy (field r ''sources'')" "js_get (field r ''sources'') ''length'' = Inr n"
      "\<not> ToString_throws n" "v = field r ''sources''"
  | (frames) n where "k = StackFramesKind" "field r ''type'' \<noteq> JStr ''paused''"
      "field r ''type'' \<noteq> JStr ''resumed''" "field r ''type'' \<noteq> JStr ''detached''"
      "\<not> truthy (field r ''sources'')" "field r ''type'' \<noteq> JStr ''newSource''"
      "truthy (field r ''frames'')" "js_get (field r ''frames'') ''length'' = Inr n"
      "\<not> ToString_throws n" "v = field r ''frames''"
  | (ack) "k = ReleaseKind" "field r ''type'' \<noteq> JStr ''paused''"
      "field r ''type'' \<noteq> JStr ''resumed''" "field r ''type'' \<noteq> JStr ''detached''"
      "\<not> truthy (field r ''sources'')" "field r ''type'' \<noteq> JStr ''newSource''"
      "\<not> truthy (field r ''frames'')" "field r ''type'' \<noteq> JStr ''exited''"
      "field r ''error'' \<noteq> JStr ''wrongState''" "length (js_keys r) = Suc 0"
      "v = JUndefined"
  using assms
  by (auto simp add: data_reply_def split: if_splits sum.splits)

lemma receiveResponse_value:
  assumes "data_reply r = Some (k, v)" and "queue k s = h # q"
    and "h < length (promises s)" and "promises s ! h = Pending"
  shows "promises (snd (receiveResponse r s)) ! h = Resolved v"
  using assms(1)
proof (cases rule: data_reply_cases)
  case (evaluated frameFinished)
  with assms(2-) show ?thesis
    by (simp add: receiveResponse_def receivePaused_def resolveOne_promises prim_defs Let_def
          split_beta nth_append settle_nth_pending)
next
  case (sources n)
  with assms(2-) show ?thesis
    by (simp add: receiveResponse_def resolveOne_promises prim_defs Let_def
          split_beta settle_nth_pending)
next
  case (frames n)
  with assms(2-) show ?thesis
    by (simp add: receiveResponse_def resolveOne_promises prim_defs Let_def
          split_beta settle_nth_pending)
next
  case ack
  with assms(2-) show ?thesis
    by (simp add: receiveResponse_def resolveOne_promises prim_defs Let_def
          split_beta settle_nth_pending)
qed

lemma wellformed_queue:
  assumes "wellformed s"
  shows "distinct (queue k s)"
    and "h \<in> set (queue k s) \<Longrightarrow> h < length (promises s) \<and> promises s ! h = Pending"
proof -
  from assms have d: "distinct (waiting s)"
    and p: "\<forall>h \<in> set (waiting s). h < length (promises s) \<and> promises s ! h = Pending"
    by (simp_all add: wellformed_def list_all_iff)
  from d show "distinct (queue k s)"
    by (cases k) (simp_all add: waiting_def)
  assume "h \<in> set (queue k s)"
  then have "h \<in> set (waiting s)"
    by (cases k) (simp_all add: waiting_def)
  with p show "h < length (promises s) \<and> promises s ! h = Pending" by blast
qed

lemma call_queue:
  assumes "is_call a"
  shows "queue k (step a s) = queue k s @ returned k a s"
  using assms
  by (cases k; cases a)
     (simp_all add: is_call_def attach_def resume_def interrupt_def detach_def
        fetchSources_def fetchStackFrames_def evaluate_def releaseMany_def enqueue_def
        prim_defs Let_def split: option.splits)

lemma calls_queue:
  assumes "\<forall>a \<in> set calls. is_call a"
  shows "queue k (run calls s) = queue k s @ issued k calls s"
  using assms
  by (induction calls arbitrary: s) (simp_all add: call_queue)

lemma run_receive_settled:
  assumes "h < length (promises s)" and "promises s ! h \<noteq> Pending"
  shows "promises (run (map Receive msgs) s) ! h = promises s ! h"
  using assms
proof (induction msgs arbitrary: s)
  case Nil
  show ?case by simp
next
  case (Cons r msgs)
  let ?s1 = "snd (receiveResponse r s)"
  from receiveResponse_settled [OF Cons.prems, of r]
  have keep: "promises ?s1 ! h = promises s ! h" .
  from Cons.prems(1) receiveResponse_length [of s r]
  have len: "h < length (promises ?s1)" by simp
  with keep Cons.prems have "promises (run (map Receive msgs) ?s1) ! h = promises ?s1 ! h"
    by (intro Cons.IH) simp_all
  with keep show ?case by simp
qed

lemma payloads_Cons:
  "payloads k (r # rs) =
     (if \<exists>v. data_reply r = Some (k, v) then snd (the (data_reply r)) # payloads k rs
      else payloads k rs)"
  by (auto split: option.splits)

declare payloads.simps(2) [simp del]

lemma deliver:
  assumes "wellformed s"
    and "\<forall>r \<in> set msgs. field r ''type'' \<noteq> JStr ''detached''"
    and "length (payloads k msgs) \<le> length (queue k s)"
  shows "(\<forall>i < length (payloads k msgs).
            promises (run (map Receive msgs) s) ! (queue k s ! i)
              = Resolved (payloads k msgs ! i)) \<and>
         queue k (run (map Receive msgs) s) = drop (length (payloads k msgs)) (queue k s)"
  using assms
proof (induction msgs arbitrary: s)
  case Nil
  show ?case by simp
next
  case (Cons r msgs)
  let ?s1 = "snd (receiveResponse r s)"
  from Cons.prems(2) have nd: "field r ''type'' \<noteq> JStr ''detached''"
    and rest: "\<forall>r \<in> set msgs. field r ''type'' \<noteq> JStr ''detached''"
    by simp_all
  from Cons.prems(1) have wf1: "wellformed ?s1"
    using wellformed_step [of s "Receive r"] by simp
  show ?case
  proof (cases "\<exists>v. data_reply r = Some (k, v)")
    case True
    then obtain v where v: "data_reply r = Some (k, v)" by blast
    then have pl: "payloads k (r # msgs) = v # payloads k msgs"
      by (simp add: payloads_Cons)
    with Cons.prems(3) obtain h q where q: "queue k s = h # q"
      by (cases "queue k s") simp_all
    from q wellformed_queue(2) [OF Cons.prems(1), of h k]
    have hp: "h < length (promises s)" "promises s ! h = Pending"
      by simp_all
    have q1: "queue k ?s1 = q"
      by (simp add: receiveResponse_queue [OF nd] v q)
    have h1: "promises ?s1 ! h = Resolved v"
      using v q hp by (rule receiveResponse_value)
    from hp(1) receiveResponse_length [of s r]
    have hl: "h < length (promises ?s1)" by simp
    from Cons.prems(3) have len1: "length (payloads k msgs) \<le> length (queue k ?s1)"
      by (simp add: pl q q1)
    note IH = Cons.IH [OF wf1 rest len1]
    have first: "promises (run (map Receive msgs) ?s1) ! h = Resolved v"
      using run_receive_settled [OF hl, of msgs] h1 by simp
    have "promises (run (map Receive (r # msgs)) s) ! (queue k s ! i)
            = Resolved (payloads k (r # msgs) ! i)"
      if "i < length (payloads k (r # msgs))" for i
    proof (cases i)
      case 0
      with first show ?thesis by (simp add: q pl)
    next
      case (Suc j)
      with that have "j < length (payloads k msgs)" by (simp add: pl)
      with IH have "promises (run (map Receive msgs) ?s1) ! (queue k ?s1 ! j)
                      = Resolved (payloads k msgs ! j)"
        by blast
      with Suc show ?thesis by (simp add: q q1 pl)
    qed
    moreover from IH have "queue k (run (map Receive (r # msgs)) s)
        = drop (length (payloads k (r # msgs))) (queue k s)"
      by (simp add: pl q q1)
    ultimately show ?thesis by blast
  next
    case False
    then have pl: "payloads k (r # msgs) = payloads k msgs"
      by (simp add: payloads_Cons)
    from False have q1: "queue k ?s1 = queue k s"
      by (auto simp add: receiveResponse_queue [OF nd] split: option.splits)
    from Cons.prems(3) have len1: "length (payloads k msgs) \<le> length (queue k ?s1)"
      by (simp add: pl q1)
    from Cons.IH [OF wf1 rest len1] show ?thesis
      by (simp add: pl q1)
  qed
qed

lemma frames_array_data_reply:
  assumes "field r ''type'' \<noteq> JStr ''paused''" and "field r ''type'' \<noteq> JStr ''resumed''"
    and "field r ''type'' \<noteq> JStr ''detached''" and "\<not> truthy (field r ''sources'')"
    and "field r ''type'' \<noteq> JStr ''newSource''" and "field r ''frames'' = JArr fs"
  shows "data_reply r = Some (StackFramesKind, JArr fs)"
  using assms by (simp add: data_reply_def)

text \<open>
  C2. Take a state in which every handle the proxy can still settle is kept once and
  is a pending promise (the constructor's state is one, and every call and every
  message keeps it so), and a kind of data operation with no request outstanding. Let
  public methods be called in any order and number, and let inbound messages of any
  kind but \<open>detached\<close> be delivered afterwards, as many of them replies of that kind as
  that operation was called. Then the handles the operation returned are pairwise
  distinct, the i-th reply of the kind resolves the i-th of them with its payload, and
  the queue of the kind is empty again. For \<open>fetchStackFrames\<close> the replies are the
  messages that reach the \<open>frames\<close> branch of the dispatcher without throwing, as
  every message does whose \<open>frames\<close> field is an array and that no earlier branch
  takes (\<open>frames_array_data_reply\<close>). Calls and
  replies of other kinds in between change nothing of this: a call appends its handle
  to the queue of its own kind only, and a message other than \<open>detached\<close> removes the
  oldest handle from the queue of its own kind and leaves every other queue as it was.
\<close>

theorem data_replies_fifo:
  assumes "wellformed s"
    and "queue k s = []"
    and "\<forall>a \<in> set calls. is_call a"
    and "\<forall>r \<in> set msgs. field r ''type'' \<noteq> JStr ''detached''"
    and "length (payloads k msgs) = length (issued k calls s)"
  shows "distinct (issued k calls s) \<and>
         (\<forall>i < length (issued k calls s).
            promises (run (map Receive msgs) (run calls s)) ! (issued k calls s ! i)
              = Resolved (payloads k msgs ! i)) \<and>
         queue k (run (map Receive msgs) (run calls s)) = [] \<and>
         (\<forall>a t k'. is_call a \<longrightarrow> queue k' (step a t) = queue k' t @ returned k' a t) \<and>
         (\<forall>r t k'. field r ''type'' \<noteq> JStr ''detached'' \<longrightarrow>
            queue k' (snd (receiveResponse r t)) =
              (case data_reply r of
                 None \<Rightarrow> queue k' t
               | Some (k'', v) \<Rightarrow> if k'' = k' then tl (queue k' t) else queue k' t))"
proof -
  let ?s1 = "run calls s"
  have q: "queue k ?s1 = issued k calls s"
    using calls_queue [OF assms(3), of k s] assms(2) by simp
  have wf1: "wellformed ?s1"
    using assms(1) by (rule wellformed_run)
  from wellformed_queue(1) [OF wf1, of k] have d: "distinct (issued k calls s)"
    by (simp add: q)
  from assms(5) have len: "length (payloads k msgs) \<le> length (queue k ?s1)"
    by (simp add: q)
  from deliver [OF wf1 assms(4) len]
  have fifo: "\<forall>i < length (issued k calls s).
            promises (run (map Receive msgs) ?s1) ! (issued k calls s ! i)
              = Resolved (payloads k msgs ! i)"
    and emp: "queue k (run (map Receive msgs) ?s1) = []"
    by (simp_all add: q assms(5))
  from d fifo emp call_queue receiveResponse_queue show ?thesis
    by blast
qed

theorem data_replies_fifo_witness:
  "waiting (ThreadActorProxy ''tab1'' Map.empty) = [] \<and>
   queue StackFramesKind (ThreadActorProxy ''tab1'' Map.empty) = [] \<and>
   is_call (FetchStackFrames 3) \<and> is_call FetchSources \<and>
   is_call (FetchStackFrames 4) \<and> is_call (FetchStackFrames 5) \<and>
   issued StackFramesKind
     [FetchStackFrames 3, FetchSources, FetchStackFrames 4, FetchStackFrames 5]
     (ThreadActorProxy ''tab1'' Map.empty) = [0, 2, 3] \<and>
   payloads StackFramesKind
     [[(''from'', JStr ''tab1''), (''frames'', JArr [JStr ''f1''])],
      [(''from'', JStr ''tab1''), (''sources'', JArr [JStr ''s1''])],
      [(''from'', JStr ''tab1''), (''frames'', JArr [])],
      [(''from'', JStr ''tab1''), (''frames'', JArr [JStr ''f3''])]]
     = [JArr [JStr ''f1''], JArr [], JArr [JStr ''f3'']] \<and>
   promises (run (map Receive
               [[(''from'', JStr ''tab1''), (''frames'', JArr [JStr ''f1''])],
                [(''from'', JStr ''tab1''), (''sources'', JArr [JStr ''s1''])],
                [(''from'', JStr ''tab1''), (''frames'', JArr [])],
                [(''from'', JStr ''tab1''), (''frames'', JArr [JStr ''f3''])]])
             (run [FetchStackFrames 3, FetchSources, FetchStackFrames 4, FetchStackFrames 5]
                (ThreadActorProxy ''tab1'' Map.empty))) ! 0 = Resolved (JArr [JStr ''f1'']) \<and>
   promises (run (map Receive
               [[(''from'', JStr ''tab1''), (''frames'', JArr [JStr ''f1''])],
                [(''from'', JStr ''tab1''), (''sources'', JArr [JStr ''s1''])],
                [(''from'', JStr ''tab1''), (''frames'', JArr [])],
                [(''from'', JStr ''tab1''), (''frames'', JArr [JStr ''f3''])]])
             (run [FetchStackFrames 3, FetchSources, FetchStackFrames 4, FetchStackFrames 5]
                (ThreadActorProxy ''tab1'' Map.empty))) ! 2 = Resolved (JArr []) \<and>
   promises (run (map Receive
               [[(''from'', JStr ''tab1''), (''frames'', JArr [JStr ''f1''])],
                [(''from'', JStr ''tab1''), (''sources'', JArr [JStr ''s1''])],
                [(''from'', JStr ''tab1''), (''frames'', JArr [])],
                [(''from'', JStr ''tab1''), (''frames'', JArr [JStr ''f3''])]])
             (run [FetchStackFrames 3, FetchSources, FetchStackFrames 4, FetchStackFrames 5]
                (ThreadActorProxy ''tab1'' Map.empty))) ! 3 = Resolved (JArr [JStr ''f3''])"
proof -
  let ?s = "ThreadActorProxy ''tab1'' Map.empty"
  let ?calls = "[FetchStackFrames 3, FetchSources, FetchStackFrames 4, FetchStackFrames 5]"
  let ?r1 = "[(''from'', JStr ''tab1''), (''frames'', JArr [JStr ''f1''])]"
  let ?r2 = "[(''from'', JStr ''tab1''), (''sources'', JArr [JStr ''s1''])]"
  let ?r3 = "[(''from'', JStr ''tab1''), (''frames'', JArr [])]"
  let ?r4 = "[(''from'', JStr ''tab1''), (''frames'', JArr [JStr ''f3''])]"
  let ?msgs = "[?r1, ?r2, ?r3, ?r4]"
  have w: "waiting ?s = []"
    by (simp add: waiting_def slot_def ThreadActorProxy_def register_def log_debug_def)
  then have wf: "wellformed ?s"
    by (simp add: wellformed_def)
  have e: "queue StackFramesKind ?s = []"
    by (simp add: ThreadActorProxy_def register_def log_debug_def)
  have c: "\<forall>a \<in> set ?calls. is_call a"
    by (simp add: is_call_def)
  have nd: "\<forall>r \<in> set ?msgs. field r ''type'' \<noteq> JStr ''detached''"
    by (simp add: field_def)
  have hs: "issued StackFramesKind ?calls ?s = [0, 2, 3]"
    by (simp add: ThreadActorProxy_def register_def fetchSources_def fetchStackFrames_def
          enqueue_def prim_defs Let_def)
  have dr: "data_reply ?r1 = Some (StackFramesKind, JArr [JStr ''f1''])"
    "data_reply ?r2 = Some (SourcesKind, JArr [JStr ''s1''])"
    "data_reply ?r3 = Some (StackFramesKind, JArr [])"
    "data_reply ?r4 = Some (StackFramesKind, JArr [JStr ''f3''])"
    by (simp_all add: data_reply_def field_def)
  have pl: "payloads StackFramesKind ?msgs = [JArr [JStr ''f1''], JArr [], JArr [JStr ''f3'']]"
    by (simp add: payloads.simps dr)
  have l: "length (payloads StackFramesKind ?msgs) = length (issued StackFramesKind ?calls ?s)"
    by (simp only: pl hs) simp
  from data_replies_fifo [OF wf e c nd l]
  have a: "\<forall>i < length (issued StackFramesKind ?calls ?s).
            promises (run (map Receive ?msgs) (run ?calls ?s))
                ! (issued StackFramesKind ?calls ?s ! i)
              = Resolved (payloads StackFramesKind ?msgs ! i)"
    by blast
  have p0: "promises (run (map Receive ?msgs) (run ?calls ?s)) ! 0 = Resolved (JArr [JStr ''f1''])"
    using a [unfolded hs pl, rule_format, of 0] by simp
  have p1: "promises (run (map Receive ?msgs) (run ?calls ?s)) ! 2 = Resolved (JArr [])"
    using a [unfolded hs pl, rule_format, of 1] by simp
  have p2: "promises (run (map Receive ?msgs) (run ?calls ?s)) ! 3 = Resolved (JArr [JStr ''f3''])"
    using a [unfolded hs pl, rule_format, of 2] by simp
  from c have c': "is_call (FetchStackFrames 3) \<and> is_call FetchSources \<and>
                   is_call (FetchStackFrames 4) \<and> is_call (FetchStackFrames 5)"
    by simp
  from w e c' hs pl p0 p1 p2 show ?thesis by blast
qed

end
